theory Spec2Isabelle
  imports Complex_Main "HOL-Library.List_Lexorder" "HOL-Library.AList"
begin

section \<open>Python strings\<close>

text \<open>
  A Python \<^verbatim>\<open>str\<close> is a sequence of Unicode code points, and \<^verbatim>\<open>len\<close> counts code
  points. A string is therefore a list of code points (natural numbers); \<open>str\<close> reads an
  ASCII literal. The prompts of the source hold a few Latin-1 letters, written here by
  their code points.
\<close>

type_synonym pystr = "nat list"

definition str :: "string \<Rightarrow> pystr" where
  "str s = map of_char s"

text \<open>
  \<^verbatim>\<open>str.isspace\<close> on one code point: the 29 code points Python 3 treats as white space.
\<close>

definition isspace :: "nat \<Rightarrow> bool" where
  "isspace c = (c \<in> set [9, 10, 11, 12, 13, 28, 29, 30, 31, 32, 133, 160, 5760,
      8192, 8193, 8194, 8195, 8196, 8197, 8198, 8199, 8200, 8201, 8202,
      8232, 8233, 8239, 8287, 12288])"

text \<open>\<^verbatim>\<open>s.strip()\<close>: white space removed from both ends.\<close>

definition strip :: "pystr \<Rightarrow> pystr" where
  "strip s = rev (dropWhile isspace (rev (dropWhile isspace s)))"

text \<open>
  \<^verbatim>\<open>s[i:j]\<close> for indices \<open>0 \<le> i\<close> and \<open>0 \<le> j\<close>: Python clamps both to the length and
  gives the empty string when \<open>j \<le> i\<close>.
\<close>

definition slice :: "pystr \<Rightarrow> nat \<Rightarrow> nat \<Rightarrow> pystr" where
  "slice s i j = take (j - i) (drop i s)"

text \<open>
  \<^verbatim>\<open>s.rfind(sub, lo, hi)\<close> for a non-empty \<open>sub\<close> and non-negative bounds: the highest
  index \<open>i\<close> with \<open>lo \<le> i\<close> and \<open>i + len(sub) \<le> min(hi, len(s))\<close> at which \<open>sub\<close> occurs;
  Python's \<open>-1\<close> is \<open>None\<close>.
\<close>

definition found_at :: "pystr \<Rightarrow> pystr \<Rightarrow> nat \<Rightarrow> bool" where
  "found_at s sub i = (take (length sub) (drop i s) = sub)"

definition rfind :: "pystr \<Rightarrow> pystr \<Rightarrow> nat \<Rightarrow> nat \<Rightarrow> nat option" where
  "rfind s sub lo hi =
     List.find (found_at s sub) (rev [lo ..< Suc (min hi (length s)) - length sub])"

text \<open>\<^verbatim>\<open>sep.join(xs)\<close>.\<close>

fun join :: "pystr \<Rightarrow> pystr list \<Rightarrow> pystr" where
  "join sep [] = []"
| "join sep [x] = x"
| "join sep (x # y # ys) = x @ sep @ join sep (y # ys)"

text \<open>
  \<^verbatim>\<open>s.lower()\<close> on the ASCII letters. Python also maps code points outside ASCII, but
  none of them to a string that holds \<open>.\<close>, \<open>p\<close>, \<open>d\<close> or \<open>f\<close>, so the test
  \<^verbatim>\<open>fname.lower().endswith('.pdf')\<close>, the only use of \<open>lower\<close> in the source, is the
  same.
\<close>

definition lower :: "pystr \<Rightarrow> pystr" where
  "lower s = map (\<lambda>c. if 65 \<le> c \<and> c \<le> 90 then c + 32 else c) s"

definition endswith :: "pystr \<Rightarrow> pystr \<Rightarrow> bool" where
  "endswith s suf = (length suf \<le> length s \<and> drop (length s - length suf) s = suf)"

definition startswith :: "pystr \<Rightarrow> pystr \<Rightarrow> bool" where
  "startswith s pre = (take (length pre) s = pre)"

text \<open>
  \<^verbatim>\<open>s.replace(old, new)\<close>: the occurrences of \<open>old\<close> are found from the left and do not
  overlap. For an empty \<open>old\<close> Python puts \<open>new\<close> before every code point and at the end.
\<close>

function replace_from :: "pystr \<Rightarrow> pystr \<Rightarrow> pystr \<Rightarrow> pystr" where
  "replace_from s old new =
     (if s = [] then []
      else if old \<noteq> [] \<and> startswith s old
        then new @ replace_from (drop (length old) s) old new
      else hd s # replace_from (tl s) old new)"
  by pat_completeness auto
termination
  by (relation "measure (\<lambda>(s, old, new). length s)") auto

definition replace :: "pystr \<Rightarrow> pystr \<Rightarrow> pystr \<Rightarrow> pystr" where
  "replace s old new =
     (if old = [] then new @ concat (map (\<lambda>c. c # new) s) else replace_from s old new)"

text \<open>\<^verbatim>\<open>os.path.join(a, b)\<close> of \<^verbatim>\<open>posixpath\<close>, for two components.\<close>

definition path_join :: "pystr \<Rightarrow> pystr \<Rightarrow> pystr" where
  "path_join a b =
     (if startswith b (str ''/'') \<and> b \<noteq> [] then b
      else if a = [] \<or> endswith a (str ''/'') then a @ b
      else a @ str ''/'' @ b)"

section \<open>The outside world\<close>

text \<open>
  Exceptions are values. The accelerator, the PDF library, the OCR engines and the LLM
  service are parameters of the functions that call them; each is a function of its
  request (the engines keep no state between calls).
\<close>

datatype exn =
    FileNotFound
  | PdfOpenError
  | OcrFailure
  | Timeout
  | ConnectionFailure
  | MalformedResponse
  | KeyError

text \<open>
  \<^verbatim>\<open>torch.cuda\<close>: no accelerator, an accelerator whose properties cannot be read
  (\<^verbatim>\<open>get_device_properties\<close> raises), or one that reports \<^verbatim>\<open>total_memory\<close> in bytes.
\<close>

datatype gpu = NoGpu | GpuFault | Gpu nat

text \<open>
  A page as PyMuPDF gives it: the text of \<^verbatim>\<open>page.get_text()\<close> and the bitmap of
  \<^verbatim>\<open>page.get_pixmap(dpi=300)\<close>, as the OCR engine receives it. A path names no file, a
  file that \<^verbatim>\<open>fitz.open\<close> refuses, or a document.
\<close>

record 'img page =
  native_text :: pystr
  pixmap :: 'img

datatype 'img pdf_file = NotAFile | Unreadable | Pdf "'img page list"

text \<open>
  One call of \<^verbatim>\<open>ollama.chat\<close>: the model and the contents of the system and the user
  message. The call raises, or returns a response; \<^verbatim>\<open>resp["message"]["content"]\<close> is
  there (\<open>Some\<close>) or the subscript raises (\<open>None\<close>).
\<close>

datatype chat_request = ChatRequest (req_model: pystr) (req_system: pystr) (req_user: pystr)

type_synonym chat = "chat_request \<Rightarrow> exn + pystr option"

section \<open>Chunk sizing: \<^verbatim>\<open>get_ideal_chunk_size\<close> (resumes.py)\<close>

text \<open>
  The source divides and multiplies in floating point and truncates with \<^verbatim>\<open>int\<close>. For a
  \<^verbatim>\<open>total_memory\<close> below \<open>2 ^ 43\<close> bytes (8 TiB) both operations are exact in double
  precision, and the truncation of a non-negative number is its floor; the model
  computes with exact reals.
\<close>

definition get_ideal_chunk_size :: "gpu \<Rightarrow> int \<Rightarrow> int" where
  "get_ideal_chunk_size g default_size =
     (case g of
        NoGpu \<Rightarrow> default_size
      | GpuFault \<Rightarrow> default_size
      | Gpu total_mem_bytes \<Rightarrow>
          (let total_mem_gb = (real total_mem_bytes / (1024 ^ 3) :: real);
               ideal = (\<lfloor>total_mem_gb * 80000\<rfloor> :: int)
           in max 1024 (min ideal (default_size * 120))))"

section \<open>Chunking: \<^verbatim>\<open>chunk_text\<close> (both files)\<close>

text \<open>
  The loop of \<^verbatim>\<open>chunk_text\<close>, the same in both files, over \<open>start\<close> and \<open>chunks\<close>.
  \<open>None\<close> is a loop that never ends. The budget is a natural number: the callers pass
  4000 or the result of \<open>get_ideal_chunk_size\<close>.
\<close>

partial_function (option) chunk_loop ::
  "pystr \<Rightarrow> nat \<Rightarrow> nat \<Rightarrow> pystr list \<Rightarrow> pystr list option" where
  "chunk_loop text max_chars start chunks =
     (if start < length text then
        (let end0 = start + max_chars;
             end1 = (if end0 < length text then
                       (case rfind text [10, 10] start end0 of
                          Some split \<Rightarrow> split
                        | None \<Rightarrow> end0)
                     else end0);
             chunk = strip (slice text start end1);
             chunks' = (if chunk \<noteq> [] then chunks @ [chunk] else chunks)
         in chunk_loop text max_chars end1 chunks')
      else Some chunks)"

declare chunk_loop.simps [code]

text \<open>resumes.py: \<^verbatim>\<open>max_chars = None\<close> asks \<open>get_ideal_chunk_size\<close> (default 4000).\<close>

definition chunk_text :: "gpu \<Rightarrow> pystr \<Rightarrow> nat option \<Rightarrow> pystr list option" where
  "chunk_text g text max_chars =
     (let m = (case max_chars of
                 None \<Rightarrow> nat (get_ideal_chunk_size g 4000)
               | Some m \<Rightarrow> m)
      in chunk_loop text m 0 [])"

text \<open>resume\_ocr\_gpu.py: the budget is given (4000 by default).\<close>

definition chunk_text_gpu :: "pystr \<Rightarrow> nat \<Rightarrow> pystr list option" where
  "chunk_text_gpu text max_chars = chunk_loop text max_chars 0 []"

section \<open>Text extraction: \<^verbatim>\<open>extract_text_from_pdf\<close>\<close>

text \<open>
  The loop over the pages carries \<open>full_text\<close> and, to make the calls of the OCR engine
  visible, the numbers of the pages handed to it. resumes.py calls
  \<^verbatim>\<open>pytesseract.image_to_string\<close> with no handler around it, so an exception of the
  engine leaves the function.
\<close>

fun extract_pages ::
  "('img \<Rightarrow> exn + pystr) \<Rightarrow> nat \<Rightarrow> 'img page list \<Rightarrow> pystr list \<times> nat list
     \<Rightarrow> exn + pystr list \<times> nat list" where
  "extract_pages ocr page_num [] (full_text, ocr_calls) = Inr (full_text, ocr_calls)"
| "extract_pages ocr page_num (page # pages) (full_text, ocr_calls) =
     (let text = strip (native_text page) in
      if text \<noteq> [] then
        extract_pages ocr (Suc page_num) pages (full_text @ [text], ocr_calls)
      else
        (case ocr (pixmap page) of
           Inl e \<Rightarrow> Inl e
         | Inr s \<Rightarrow>
             (let ocr_text = strip s in
              if ocr_text \<noteq> [] then
                extract_pages ocr (Suc page_num) pages
                  (full_text @ [ocr_text], ocr_calls @ [page_num])
              else
                extract_pages ocr (Suc page_num) pages
                  (full_text, ocr_calls @ [page_num]))))"

definition extract_text_from_pdf ::
  "(pystr \<Rightarrow> 'img pdf_file) \<Rightarrow> ('img \<Rightarrow> exn + pystr) \<Rightarrow> pystr \<Rightarrow> exn + pystr \<times> nat list" where
  "extract_text_from_pdf fs ocr pdf_path =
     (case fs pdf_path of
        NotAFile \<Rightarrow> Inl FileNotFound
      | Unreadable \<Rightarrow> Inl PdfOpenError
      | Pdf doc \<Rightarrow>
          (case extract_pages ocr 1 doc ([], []) of
             Inl e \<Rightarrow> Inl e
           | Inr (full_text, ocr_calls) \<Rightarrow> Inr (join [10, 10] full_text, ocr_calls)))"

text \<open>
  resume\_ocr\_gpu.py: a missing file and a failing \<^verbatim>\<open>fitz.open\<close> give the empty string;
  \<^verbatim>\<open>reader.readtext\<close> returns a list of strings and stands in a \<^verbatim>\<open>try\<close> whose handler
  sets \<open>results = []\<close>.
\<close>

fun extract_pages_gpu ::
  "('img \<Rightarrow> exn + pystr list) \<Rightarrow> nat \<Rightarrow> 'img page list \<Rightarrow> pystr list \<times> nat list
     \<Rightarrow> pystr list \<times> nat list" where
  "extract_pages_gpu reader page_num [] (full_text, ocr_calls) = (full_text, ocr_calls)"
| "extract_pages_gpu reader page_num (page # pages) (full_text, ocr_calls) =
     (let text = strip (native_text page) in
      if text \<noteq> [] then
        extract_pages_gpu reader (Suc page_num) pages (full_text @ [text], ocr_calls)
      else
        (let results = (case reader (pixmap page) of Inl e \<Rightarrow> [] | Inr rs \<Rightarrow> rs);
             ocr_text = strip (join [10] results)
         in if ocr_text \<noteq> [] then
              extract_pages_gpu reader (Suc page_num) pages
                (full_text @ [ocr_text], ocr_calls @ [page_num])
            else
              extract_pages_gpu reader (Suc page_num) pages
                (full_text, ocr_calls @ [page_num])))"

definition extract_text_from_pdf_gpu ::
  "(pystr \<Rightarrow> 'img pdf_file) \<Rightarrow> ('img \<Rightarrow> exn + pystr list) \<Rightarrow> pystr \<Rightarrow> pystr \<times> nat list" where
  "extract_text_from_pdf_gpu fs reader pdf_path =
     (case fs pdf_path of
        NotAFile \<Rightarrow> ([], [])
      | Unreadable \<Rightarrow> ([], [])
      | Pdf doc \<Rightarrow>
          (case extract_pages_gpu reader 1 doc ([], []) of
             (full_text, ocr_calls) \<Rightarrow> (join [10, 10] full_text, ocr_calls)))"

section \<open>Summaries: \<^verbatim>\<open>summarize_chunk\<close> and the synthesis functions\<close>

text \<open>
  Each function builds its prompt, calls \<^verbatim>\<open>ollama.chat\<close> once with a system and a user
  message, and returns the trimmed content of the response. The request of each call is
  a definition of its own, so that the theorems can name it.

  resumes.py: no handler stands around \<^verbatim>\<open>ollama.chat\<close> or the subscripts, so an exception
  leaves \<open>summarize_chunk\<close> and \<open>synthesize_summaries_single\<close>.
\<close>

definition summarize_request :: "pystr \<Rightarrow> pystr \<Rightarrow> chat_request" where
  "summarize_request chunk model =
     (let prompt =
            str ''Voc'' @ [234] @ str '' '' @ [233]
            @ str '' um assistente que resume textos cient'' @ [237] @ str ''ficos. ''
            @ str ''Forne'' @ [231] @ str ''a um resumo em portugu'' @ [234]
            @ str ''s culto, valorizando as ideias principais do trecho abaixo:\<newline>\<newline>''
            @ chunk
      in ChatRequest model (str ''Resuma textos em portugu'' @ [234] @ str ''s.'') prompt)"

definition summarize_chunk :: "chat \<Rightarrow> pystr \<Rightarrow> pystr \<Rightarrow> exn + pystr" where
  "summarize_chunk llm chunk model =
     (case llm (summarize_request chunk model) of
        Inl e \<Rightarrow> Inl e
      | Inr resp \<Rightarrow>
          (case resp of
             None \<Rightarrow> Inl KeyError
           | Some content \<Rightarrow> Inr (strip content)))"

text \<open>The local variable \<open>joined\<close> of \<open>synthesize_summaries_single\<close>.\<close>

definition joined_single :: "pystr list \<Rightarrow> pystr" where
  "joined_single summaries = join [10, 10] summaries"

definition synthesis_request_single :: "pystr list \<Rightarrow> pystr \<Rightarrow> chat_request" where
  "synthesis_request_single summaries model =
     (let joined = joined_single summaries;
          prompt =
            str ''Voc'' @ [234] @ str '' '' @ [233]
            @ str '' um assistente especializado em resumos cient'' @ [237] @ str ''ficos. ''
            @ str ''Com base nas ideias abaixo, produza um resumo coeso em texto corrido, ''
            @ str ''em l'' @ [237] @ str ''ngua portuguesa culta, sintetizando as principais contribui''
            @ [231, 245] @ str ''es do artigo:\<newline>\<newline>''
            @ joined
      in ChatRequest model (str ''S'' @ [237] @ str ''ntese multi-resumos em texto corrido.'')
           prompt)"

definition synthesize_summaries_single :: "chat \<Rightarrow> pystr list \<Rightarrow> pystr \<Rightarrow> exn + pystr" where
  "synthesize_summaries_single llm summaries model =
     (case llm (synthesis_request_single summaries model) of
        Inl e \<Rightarrow> Inl e
      | Inr resp \<Rightarrow>
          (case resp of
             None \<Rightarrow> Inl KeyError
           | Some content \<Rightarrow> Inr (strip content)))"

text \<open>
  resume\_ocr\_gpu.py: the call and the subscripts stand in a \<^verbatim>\<open>try\<close> whose handler
  (\<^verbatim>\<open>except Exception\<close>) returns the empty string.
\<close>

definition summarize_request_gpu :: "pystr \<Rightarrow> pystr \<Rightarrow> chat_request" where
  "summarize_request_gpu chunk model =
     (let prompt =
            str ''Voc'' @ [234] @ str '' '' @ [233] @ str '' um assistente '' @ [250] @ str ''til. ''
            @ str ''Por favor, forne'' @ [231] @ str ''a um resumo conciso em l'' @ [237]
            @ str ''ngua portuguesa, seguindo a norma culta da gram'' @ [225]
            @ str ''tica brasileira, do seguinte texto:\<newline>\<newline>''
            @ chunk
      in ChatRequest model
           (str ''Voc'' @ [234] @ str '' resume textos em portugu'' @ [234] @ str ''s.'') prompt)"

definition summarize_chunk_gpu :: "chat \<Rightarrow> pystr \<Rightarrow> pystr \<Rightarrow> pystr" where
  "summarize_chunk_gpu llm chunk model =
     (case llm (summarize_request_gpu chunk model) of
        Inl e \<Rightarrow> []
      | Inr resp \<Rightarrow>
          (case resp of
             None \<Rightarrow> []
           | Some content \<Rightarrow> strip content))"

text \<open>
  The local variable \<open>joined\<close> of \<open>synthesize_summaries\<close>:
  \<^verbatim>\<open>"\n\n".join(f"- {s}" for s in summaries if s)\<close>.
\<close>

definition joined_gpu :: "pystr list \<Rightarrow> pystr" where
  "joined_gpu summaries =
     join [10, 10] (map (\<lambda>s. str ''- '' @ s) (filter (\<lambda>s. s \<noteq> []) summaries))"

definition synthesis_request_gpu :: "pystr list \<Rightarrow> pystr \<Rightarrow> chat_request" where
  "synthesis_request_gpu summaries model =
     (let joined = joined_gpu summaries;
          prompt =
            str ''Voc'' @ [234] @ str '' '' @ [233] @ str '' um especialista em s'' @ [237]
            @ str ''ntese. ''
            @ str ''Com base nos resumos a seguir, produza um '' @ [250]
            @ str ''nico resumo coeso e estruturado, ''
            @ str ''em l'' @ [237] @ str ''ngua portuguesa conforme a norma culta da gram'' @ [225]
            @ str ''tica brasileira, no formato Markdown:\<newline>\<newline>''
            @ joined
      in ChatRequest model
           (str ''Voc'' @ [234] @ str '' sintetiza m'' @ [250]
            @ str ''ltiplos resumos em portugu'' @ [234] @ str ''s.'')
           prompt)"

definition synthesize_summaries_gpu :: "chat \<Rightarrow> pystr list \<Rightarrow> pystr \<Rightarrow> pystr" where
  "synthesize_summaries_gpu llm summaries model =
     (case llm (synthesis_request_gpu summaries model) of
        Inl e \<Rightarrow> []
      | Inr resp \<Rightarrow>
          (case resp of
             None \<Rightarrow> []
           | Some content \<Rightarrow> strip content))"

section \<open>The multi-document pipeline: \<^verbatim>\<open>process_papers\<close> (resumes.py)\<close>

text \<open>The loop that fills \<open>article_parts\<close>; the first exception ends it.\<close>

fun summarize_parts :: "chat \<Rightarrow> pystr \<Rightarrow> pystr list \<Rightarrow> pystr list \<Rightarrow> exn + pystr list" where
  "summarize_parts llm model [] article_parts = Inr article_parts"
| "summarize_parts llm model (chunk # chunks) article_parts =
     (case summarize_chunk llm chunk model of
        Inl e \<Rightarrow> Inl e
      | Inr s \<Rightarrow> summarize_parts llm model chunks (article_parts @ [s]))"

text \<open>
  The loop over the sorted file names. The dictionary \<open>summaries\<close> is an association
  list in insertion order; an assignment to a key that is there keeps its place, as in
  Python. \<open>None\<close>: a call of \<open>chunk_text\<close> never returned. \<open>Some (Inl e)\<close>: the exception
  \<open>e\<close> left \<open>process_papers\<close>.
\<close>

fun process_files ::
  "(pystr \<Rightarrow> 'img pdf_file) \<Rightarrow> ('img \<Rightarrow> exn + pystr) \<Rightarrow> gpu \<Rightarrow> chat \<Rightarrow> pystr \<Rightarrow> pystr
     \<Rightarrow> pystr list \<Rightarrow> (pystr \<times> pystr) list \<Rightarrow> (exn + (pystr \<times> pystr) list) option" where
  "process_files fs ocr g llm directory model [] summaries = Some (Inr summaries)"
| "process_files fs ocr g llm directory model (fname # fnames) summaries =
     (if endswith (lower fname) (str ''.pdf'') then
        (let path = path_join directory fname in
         case extract_text_from_pdf fs ocr path of
           Inl e \<Rightarrow> Some (Inl e)
         | Inr (text, ocr_calls) \<Rightarrow>
             if text = [] then process_files fs ocr g llm directory model fnames summaries
             else
               (case chunk_text g text None of
                  None \<Rightarrow> None
                | Some chunks \<Rightarrow>
                    (case summarize_parts llm model chunks [] of
                       Inl e \<Rightarrow> Some (Inl e)
                     | Inr article_parts \<Rightarrow>
                         (case synthesize_summaries_single llm article_parts model of
                            Inl e \<Rightarrow> Some (Inl e)
                          | Inr s \<Rightarrow>
                              process_files fs ocr g llm directory model fnames
                                (AList.update (replace fname (str ''.pdf'') []) s summaries)))))
      else process_files fs ocr g llm directory model fnames summaries)"

text \<open>\<^verbatim>\<open>os.listdir\<close> gives the names in a directory, or raises.\<close>

definition process_papers ::
  "(pystr \<Rightarrow> exn + pystr list) \<Rightarrow> (pystr \<Rightarrow> 'img pdf_file) \<Rightarrow> ('img \<Rightarrow> exn + pystr) \<Rightarrow> gpu
     \<Rightarrow> chat \<Rightarrow> pystr \<Rightarrow> pystr \<Rightarrow> (exn + (pystr \<times> pystr) list) option" where
  "process_papers listdir fs ocr g llm directory model =
     (case listdir directory of
        Inl e \<Rightarrow> Some (Inl e)
      | Inr names \<Rightarrow> process_files fs ocr g llm directory model (sort names) [])"

section \<open>The single-document pipeline: \<^verbatim>\<open>main\<close> (resume\_ocr\_gpu.py)\<close>

text \<open>
  What \<open>main\<close> does to the output file: nothing (no text was extracted), a write of the
  final summary, or a write that raised and was logged. \<open>None\<close>: \<open>chunk_text\<close> never
  returned.
\<close>

datatype main_outcome = NoText | Saved pystr | SaveFailed pystr

definition main_gpu ::
  "(pystr \<Rightarrow> 'img pdf_file) \<Rightarrow> ('img \<Rightarrow> exn + pystr list) \<Rightarrow> chat \<Rightarrow> (pystr \<Rightarrow> bool)
     \<Rightarrow> pystr \<Rightarrow> pystr \<Rightarrow> pystr \<Rightarrow> main_outcome option" where
  "main_gpu fs reader llm writable pdf_path output_path model =
     (let text = fst (extract_text_from_pdf_gpu fs reader pdf_path) in
      if text = [] then Some NoText
      else
        (case chunk_text_gpu text 4000 of
           None \<Rightarrow> None
         | Some chunks \<Rightarrow>
             (let summaries = map (\<lambda>chunk. summarize_chunk_gpu llm chunk model) chunks;
                  final_summary = synthesize_summaries_gpu llm summaries model
              in if writable output_path then Some (Saved final_summary)
                 else Some (SaveFailed final_summary))))"

section \<open>Sample inputs\<close>

text \<open>
  Documents and engines for the closed examples below: a document whose second page is a
  scan (its native text is one blank), a document with native text on every page, and OCR
  engines that raise on every call.
\<close>

definition scan_doc :: "nat page list" where
  "scan_doc =
     [\<lparr>native_text = str ''Hello world.'', pixmap = 1\<rparr>,
      \<lparr>native_text = str '' '', pixmap = 2\<rparr>,
      \<lparr>native_text = str ''Last page'', pixmap = 3\<rparr>]"

definition scan_fs :: "pystr \<Rightarrow> nat pdf_file" where
  "scan_fs pdf_path = (if pdf_path = str ''scan.pdf'' then Pdf scan_doc else NotAFile)"

definition text_doc :: "nat page list" where
  "text_doc =
     [\<lparr>native_text = str '' Hello world.'', pixmap = 1\<rparr>,
      \<lparr>native_text = str ''Last page'', pixmap = 2\<rparr>]"

definition text_fs :: "pystr \<Rightarrow> nat pdf_file" where
  "text_fs pdf_path = (if pdf_path = str ''text.pdf'' then Pdf text_doc else NotAFile)"

definition broken_ocr :: "nat \<Rightarrow> exn + pystr" where
  "broken_ocr img = Inl OcrFailure"

definition broken_reader :: "nat \<Rightarrow> exn + pystr list" where
  "broken_reader img = Inl OcrFailure"


text \<open>
  A document whose second page is one long paragraph; LLM services that refuse every
  connection, answer with white space, or answer with a fixed summary; a directory of
  papers; and a file system on which every write succeeds.
\<close>

definition long_page_doc :: "nat page list" where
  "long_page_doc =
     [\<lparr>native_text = str ''aaaa'', pixmap = 1\<rparr>,
      \<lparr>native_text = replicate 4000 98, pixmap = 2\<rparr>]"

definition long_page_fs :: "pystr \<Rightarrow> nat pdf_file" where
  "long_page_fs pdf_path = (if pdf_path = str ''long.pdf'' then Pdf long_page_doc else NotAFile)"


definition down_llm :: chat where
  "down_llm req = Inl ConnectionFailure"

definition blank_llm :: chat where
  "blank_llm req = Inr (Some (str '' \<newline>''))"

definition fixed_llm :: chat where
  "fixed_llm req = Inr (Some (str ''Resumo. ''))"


definition papers_listdir :: "pystr \<Rightarrow> exn + pystr list" where
  "papers_listdir directory =
     (if directory = str ''papers''
      then Inr [str ''notes.txt'', str ''b.pdf.v2.pdf'', str ''X.PDF'']
      else Inl FileNotFound)"

definition papers_fs :: "pystr \<Rightarrow> nat pdf_file" where
  "papers_fs pdf_path =
     (if pdf_path = str ''papers/X.PDF'' \<or> pdf_path = str ''papers/b.pdf.v2.pdf''
      then Pdf text_doc else NotAFile)"


text \<open>
  A document whose second page is a scan, with OCR engines that read it.
\<close>

definition scanned_doc :: "nat page list" where
  "scanned_doc =
     [\<lparr>native_text = str ''Hello world.'', pixmap = 1\<rparr>,
      \<lparr>native_text = [], pixmap = 2\<rparr>]"

definition scanned_fs :: "pystr \<Rightarrow> nat pdf_file" where
  "scanned_fs pdf_path = (if pdf_path = str ''scanned.pdf'' then Pdf scanned_doc else NotAFile)"

definition scanned_ocr :: "nat \<Rightarrow> exn + pystr" where
  "scanned_ocr img = Inr (str ''Scanned content.\<newline>'')"

definition scanned_reader :: "nat \<Rightarrow> exn + pystr list" where
  "scanned_reader img = Inr [str ''Scanned content.'']"

definition always_writable :: "pystr \<Rightarrow> bool" where
  "always_writable output_path = True"

section \<open>Properties of chunk sizing\<close>



section \<open>Properties of strings\<close>

lemma strip_length: "length (strip s) \<le> length s"
proof -
  have "length (strip s) \<le> length (dropWhile isspace s)"
    unfolding strip_def using length_dropWhile_le [of isspace "rev (dropWhile isspace s)"] by simp
  also have "\<dots> \<le> length s" by (rule length_dropWhile_le)
  finally show ?thesis .
qed

lemma strip_decomp:
  "\<exists>l r. s = l @ strip s @ r \<and> (\<forall>c\<in>set l. isspace c) \<and> (\<forall>c\<in>set r. isspace c)"
proof -
  define d where "d = dropWhile isspace s"
  define l where "l = takeWhile isspace s"
  define r where "r = rev (takeWhile isspace (rev d))"
  have "rev (dropWhile isspace (rev d)) @ rev (takeWhile isspace (rev d))
      = rev (takeWhile isspace (rev d) @ dropWhile isspace (rev d))"
    by (simp only: rev_append)
  also have "\<dots> = d" by (simp only: takeWhile_dropWhile_id rev_rev_ident)
  finally have d: "d = strip s @ r" by (simp add: strip_def r_def d_def)
  have "s = l @ d" by (simp add: l_def d_def)
  with d have "s = l @ strip s @ r" by simp
  moreover have "\<forall>c\<in>set l. isspace c" unfolding l_def by (auto dest: set_takeWhileD)
  moreover have "\<forall>c\<in>set r. isspace c" unfolding r_def by (auto dest: set_takeWhileD)
  ultimately show ?thesis by blast
qed

lemma strip_Nil [simp]: "strip [] = []"
  by (simp add: strip_def)

lemma find_rev_upt_SomeD:
  "List.find P (rev [lo ..< n]) = Some i \<Longrightarrow> lo \<le> i \<and> i < n \<and> P i"
proof (induction n)
  case 0
  then show ?case by simp
next
  case (Suc n)
  then show ?case by (cases "lo \<le> n") (auto split: if_splits)
qed

lemma rfind_SomeD:
  assumes "rfind s sub lo hi = Some i"
  shows "lo \<le> i" and "i + length sub \<le> min hi (length s)" and "found_at s sub i"
  using find_rev_upt_SomeD [OF assms [unfolded rfind_def]] by auto

lemma find_rev_upt_SomeI:
  "lo \<le> i \<Longrightarrow> i < n \<Longrightarrow> P i \<Longrightarrow> (\<And>j. i < j \<Longrightarrow> j < n \<Longrightarrow> \<not> P j)
     \<Longrightarrow> List.find P (rev [lo ..< n]) = Some i"
proof (induction n)
  case 0
  then show ?case by simp
next
  case (Suc n)
  show ?case
  proof (cases "i = n")
    case True
    with Suc.prems show ?thesis by simp
  next
    case False
    with Suc.prems have "i < n" by simp
    moreover have "\<not> P n" using Suc.prems(4) [of n] \<open>i < n\<close> by simp
    moreover have "List.find P (rev [lo ..< n]) = Some i"
      using Suc.IH Suc.prems \<open>i < n\<close> by simp
    ultimately show ?thesis using Suc.prems(1) by simp
  qed
qed

lemma rfind_SomeI:
  assumes "lo \<le> i" and "i + length sub \<le> min hi (length s)" and "found_at s sub i"
    and "\<And>j. i < j \<Longrightarrow> j + length sub \<le> min hi (length s) \<Longrightarrow> \<not> found_at s sub j"
  shows "rfind s sub lo hi = Some i"
  unfolding rfind_def
proof (rule find_rev_upt_SomeI)
  show "lo \<le> i" by fact
  show "i < Suc (min hi (length s)) - length sub" using assms(2) by arith
  show "found_at s sub i" by fact
  show "\<not> found_at s sub j" if "i < j" "j < Suc (min hi (length s)) - length sub" for j
    using assms(4) [of j] that by arith
qed

lemma take_slice:
  assumes "s \<le> e"
  shows "take e text = take s text @ slice text s e"
proof -
  from assms have "e = s + (e - s)" by simp
  then have "take e text = take (s + (e - s)) text" by simp
  also have "\<dots> = take s text @ take (e - s) (drop s text)" by (rule take_add)
  finally show ?thesis by (simp add: slice_def)
qed

lemma map2_append_snoc:
  "length gs = length cs \<Longrightarrow>
     concat (map2 (@) (gs @ [g]) (cs @ [c])) = concat (map2 (@) gs cs) @ g @ c"
  by simp

lemma filter_weave:
  assumes "length gaps = length cs" and "\<forall>g\<in>set gaps. \<forall>c\<in>set g. isspace c"
  shows "filter (\<lambda>c. \<not> isspace c) (concat (map2 (@) gaps cs)) = filter (\<lambda>c. \<not> isspace c) (concat cs)"
  using assms
proof (induction gaps cs rule: list_induct2)
  case Nil
  then show ?case by simp
next
  case (Cons g gs c cs)
  then have "filter (\<lambda>c. \<not> isspace c) g = []" by (simp add: filter_empty_conv)
  with Cons show ?case by simp
qed

lemma strip_trimmed:
  assumes "strip s \<noteq> []"
  shows "\<not> isspace (hd (strip s)) \<and> \<not> isspace (last (strip s))"
proof -
  define d where "d = dropWhile isspace s"
  define b where "b = dropWhile isspace (rev d)"
  have st: "strip s = rev b" by (simp add: strip_def d_def b_def)
  with assms have b: "b \<noteq> []" by simp
  then have "\<not> isspace (hd b)" unfolding b_def by (rule hd_dropWhile)
  then have last: "\<not> isspace (last (strip s))" using b by (simp add: st last_rev)
  from b have d: "d \<noteq> []" unfolding b_def by auto
  then have hd: "\<not> isspace (hd d)" unfolding d_def by (rule hd_dropWhile)
  have "rev d = takeWhile isspace (rev d) @ b" by (simp add: b_def)
  then have "d = rev b @ rev (takeWhile isspace (rev d))"
    by (metis rev_append rev_rev_ident)
  with b have "hd d = hd (rev b)" by (metis hd_append2 rev_is_Nil_conv)
  with hd last st show ?thesis by simp
qed

section \<open>Properties of chunking\<close>

text \<open>
  An invariant of the loop: what holds of \<open>start\<close> and \<open>chunks\<close> at the beginning and is
  kept by every turn, whatever cut \<open>e\<close> between \<open>start\<close> and \<open>start + max_chars\<close> the turn
  makes, holds of the returned list, with a \<open>start\<close> at or past the end of the text.
\<close>

lemma chunk_loop_invariant:
  fixes I :: "nat \<Rightarrow> pystr list \<Rightarrow> bool"
  assumes ret: "chunk_loop text m start chunks = Some r"
    and init: "I start chunks"
    and step: "\<And>s cs e. I s cs \<Longrightarrow> s < length text \<Longrightarrow> s \<le> e \<Longrightarrow> e \<le> s + m \<Longrightarrow>
       I e (if strip (slice text s e) \<noteq> [] then cs @ [strip (slice text s e)] else cs)"
  shows "\<exists>s'. I s' r \<and> length text \<le> s'"
proof -
  have "text = text \<and> m = m \<and> I start chunks \<longrightarrow> (\<exists>s'. I s' r \<and> length text \<le> s')"
  proof (rule chunk_loop.raw_induct
      [where P = "\<lambda>t k s cs res. t = text \<and> k = m \<and> I s cs \<longrightarrow> (\<exists>s'. I s' res \<and> length text \<le> s')",
        OF _ ret])
    fix f t k s cs res
    assume IH: "\<And>t k s cs res. f t k s cs = Some res \<Longrightarrow>
        t = text \<and> k = m \<and> I s cs \<longrightarrow> (\<exists>s'. I s' res \<and> length text \<le> s')"
      and eq: "(if s < length t then
        (let end0 = s + k;
             end1 = (if end0 < length t then
                       (case rfind t [10, 10] s end0 of
                          Some split \<Rightarrow> split
                        | None \<Rightarrow> end0)
                     else end0);
             chunk = strip (slice t s end1);
             chunks' = (if chunk \<noteq> [] then cs @ [chunk] else cs)
         in f t k end1 chunks')
      else Some cs) = Some res"
    show "t = text \<and> k = m \<and> I s cs \<longrightarrow> (\<exists>s'. I s' res \<and> length text \<le> s')"
    proof
      assume A: "t = text \<and> k = m \<and> I s cs"
      show "\<exists>s'. I s' res \<and> length text \<le> s'"
      proof (cases "s < length text")
        case False
        with eq A have "res = cs" by simp
        with A False show ?thesis by (intro exI [of _ s]) simp
      next
        case True
        define e where "e = (if s + m < length text then
                       (case rfind text [10, 10] s (s + m) of
                          Some split \<Rightarrow> split
                        | None \<Rightarrow> s + m)
                     else s + m)"
        have le: "s \<le> e" and ge: "e \<le> s + m"
          unfolding e_def by (auto split: option.splits dest: rfind_SomeD)
        from A have tk: "t = text" "k = m" by simp_all
        from eq [unfolded tk Let_def]
        have "f text m e (if strip (slice text s e) \<noteq> [] then cs @ [strip (slice text s e)] else cs) = Some res"
          unfolding e_def by (simp only: True if_True)
        from IH [OF this] step [OF _ True le ge] A show ?thesis by blast
      qed
    qed
  qed
  with init show ?thesis by simp
qed

lemma chunk_loop_bounded:
  assumes "chunk_loop text m start chunks = Some r" and "\<forall>c\<in>set chunks. length c \<le> m"
  shows "\<forall>c\<in>set r. length c \<le> m"
proof -
  have "\<exists>s'. (\<forall>c\<in>set r. length c \<le> m) \<and> length text \<le> s'"
  proof (rule chunk_loop_invariant [where I = "\<lambda>s cs. \<forall>c\<in>set cs. length c \<le> m", OF assms])
    fix s e :: nat and cs :: "pystr list"
    assume cs: "\<forall>c\<in>set cs. length c \<le> m" and "s \<le> e" "e \<le> s + m"
    have "length (strip (slice text s e)) \<le> length (slice text s e)" by (rule strip_length)
    also have "\<dots> \<le> e - s" by (simp add: slice_def)
    also have "\<dots> \<le> m" using \<open>e \<le> s + m\<close> by simp
    finally show "\<forall>c\<in>set (if strip (slice text s e) \<noteq> [] then cs @ [strip (slice text s e)] else cs). length c \<le> m"
      using cs by auto
  qed
  then show ?thesis by blast
qed

lemma chunk_loop_weave:
  assumes ret: "chunk_loop text m 0 [] = Some r"
  shows "\<exists>gaps tail. length gaps = length r \<and> (\<forall>g\<in>set gaps. \<forall>c\<in>set g. isspace c)
           \<and> (\<forall>c\<in>set tail. isspace c) \<and> text = concat (map2 (@) gaps r) @ tail"
proof -
  define I where "I = (\<lambda>s (cs :: pystr list). \<exists>gaps tail. length gaps = length cs
       \<and> (\<forall>g\<in>set gaps. \<forall>c\<in>set g. isspace c) \<and> (\<forall>c\<in>set tail. isspace c)
       \<and> take s text = concat (map2 (@) gaps cs) @ tail)"
  have "\<exists>s'. I s' r \<and> length text \<le> s'"
  proof (rule chunk_loop_invariant [where I = I, OF ret])
    show "I 0 []" by (simp add: I_def)
  next
    fix s e :: nat and cs :: "pystr list"
    assume inv: "I s cs" and "s \<le> e"
    from inv obtain gaps tail where g: "length gaps = length cs"
      "\<forall>g\<in>set gaps. \<forall>c\<in>set g. isspace c" "\<forall>c\<in>set tail. isspace c"
      "take s text = concat (map2 (@) gaps cs) @ tail"
      unfolding I_def by blast
    obtain l r where lr: "slice text s e = l @ strip (slice text s e) @ r"
      "\<forall>c\<in>set l. isspace c" "\<forall>c\<in>set r. isspace c"
      using strip_decomp [of "slice text s e"] by blast
    have tk: "take e text = concat (map2 (@) gaps cs) @ tail @ slice text s e"
      using take_slice [OF \<open>s \<le> e\<close>, of "text"] g(4) by simp
    show "I e (if strip (slice text s e) \<noteq> [] then cs @ [strip (slice text s e)] else cs)"
    proof (cases "strip (slice text s e) = []")
      case True
      with lr have "\<forall>c\<in>set (tail @ slice text s e). isspace c" using g(3) by auto
      with g tk True show ?thesis unfolding I_def
        by (intro exI [of _ gaps] exI [of _ "tail @ slice text s e"]) simp
    next
      case False
      have "take e text = concat (map2 (@) (gaps @ [tail @ l]) (cs @ [strip (slice text s e)])) @ r"
        using tk lr(1) g(1) by (simp add: map2_append_snoc)
      moreover have "\<forall>g\<in>set (gaps @ [tail @ l]). \<forall>c\<in>set g. isspace c"
        using g(2,3) lr(2) by auto
      ultimately show ?thesis using False g(1) lr(3) unfolding I_def
        by (intro exI [of _ "gaps @ [tail @ l]"] exI [of _ r]) simp
    qed
  qed
  then obtain s' where "I s' r" "length text \<le> s'" by blast
  then show ?thesis unfolding I_def by simp
qed

lemma chunk_loop_trimmed:
  assumes ret: "chunk_loop text m 0 [] = Some r"
  shows "\<forall>c\<in>set r. c \<noteq> [] \<and> \<not> isspace (hd c) \<and> \<not> isspace (last c)"
proof -
  have "\<exists>s'. (\<forall>c\<in>set r. c \<noteq> [] \<and> \<not> isspace (hd c) \<and> \<not> isspace (last c)) \<and> length text \<le> s'"
  proof (rule chunk_loop_invariant
      [where I = "\<lambda>s cs. \<forall>c\<in>set cs. c \<noteq> [] \<and> \<not> isspace (hd c) \<and> \<not> isspace (last c)", OF ret])
    fix s e :: nat and cs :: "pystr list"
    assume "\<forall>c\<in>set cs. c \<noteq> [] \<and> \<not> isspace (hd c) \<and> \<not> isspace (last c)"
    then show "\<forall>c\<in>set (if strip (slice text s e) \<noteq> [] then cs @ [strip (slice text s e)] else cs).
        c \<noteq> [] \<and> \<not> isspace (hd c) \<and> \<not> isspace (last c)"
      using strip_trimmed [of "slice text s e"] by auto
  qed simp
  then show ?thesis by blast
qed

lemma chunk_text_loop:
  "chunk_text_gpu T m = chunk_loop T m 0 []"
  "chunk_text g T (Some m) = chunk_loop T m 0 []"
  "chunk_text g T None = chunk_loop T (nat (get_ideal_chunk_size g 4000)) 0 []"
  by (simp_all add: chunk_text_gpu_def chunk_text_def)

lemma chunk_loop_cut_at_budget:
  assumes "start + m < length text" and "rfind text [10, 10] start (start + m) = None"
  shows "chunk_loop text m start chunks
    = chunk_loop text m (start + m)
        (if strip (slice text start (start + m)) \<noteq> []
         then chunks @ [strip (slice text start (start + m))] else chunks)"
  using assms by (subst chunk_loop.simps) (simp add: Let_def)

text \<open>
  A turn that cuts at \<open>start\<close> itself changes nothing, so the loop never ends.
\<close>

lemma chunk_loop_stuck:
  assumes lt: "start < length text" and lt2: "start + m < length text"
    and rf: "rfind text [10, 10] start (start + m) = Some start"
  shows "chunk_loop text m start chunks = None"
proof (rule ccontr)
  assume "chunk_loop text m start chunks \<noteq> None"
  then obtain r where ret: "chunk_loop text m start chunks = Some r" by blast
  have "\<not> (text = text \<and> m = m \<and> start = start)"
  proof (rule chunk_loop.raw_induct
      [where P = "\<lambda>t k s cs res. \<not> (t = text \<and> k = m \<and> s = start)", OF _ ret])
    fix f t k s cs res
    assume IH: "\<And>t k s cs res. f t k s cs = Some res \<Longrightarrow> \<not> (t = text \<and> k = m \<and> s = start)"
      and eq: "(if s < length t then
        (let end0 = s + k;
             end1 = (if end0 < length t then
                       (case rfind t [10, 10] s end0 of
                          Some split \<Rightarrow> split
                        | None \<Rightarrow> end0)
                     else end0);
             chunk = strip (slice t s end1);
             chunks' = (if chunk \<noteq> [] then cs @ [chunk] else cs)
         in f t k end1 chunks')
      else Some cs) = Some res"
    show "\<not> (t = text \<and> k = m \<and> s = start)"
    proof
      assume A: "t = text \<and> k = m \<and> s = start"
      then have tk: "t = text" "k = m" "s = start" by simp_all
      from eq [unfolded tk Let_def] have "f text m start cs = Some res"
        by (simp add: lt lt2 rf slice_def)
      from IH [OF this] show False by simp
    qed
  qed
  then show False by simp
qed

lemma chunk_loop_example:
  "chunk_loop (str ''aaaa\<newline>\<newline>bbbbbbbbbb'') 6 0 []
     = chunk_loop (str ''aaaa\<newline>\<newline>bbbbbbbbbb'') 6 4 [str ''aaaa'']"
proof -
  have len: "length (str ''aaaa\<newline>\<newline>bbbbbbbbbb'') = 16"
    by (simp add: str_def)
  have rf: "rfind (str ''aaaa\<newline>\<newline>bbbbbbbbbb'') [10, 10] 0 6 = Some 4"
    by code_simp
  have st: "strip (slice (str ''aaaa\<newline>\<newline>bbbbbbbbbb'') 0 4) = str ''aaaa''"
    by (simp add: str_def strip_def slice_def isspace_def)
  have ne: "str ''aaaa'' \<noteq> []"
    by (simp add: str_def)
  show ?thesis
    by (subst chunk_loop.simps) (simp add: Let_def len rf st ne)
qed

text \<open>
  Claim C1 says that the loop of \<open>chunk_text\<close> ends for every text and every budget
  \<open>max_chars > 0\<close>. It does not. After a cut at a paragraph break the next turn starts at
  the break itself; when the next window ends before the end of the text and holds no
  later break, \<^verbatim>\<open>rfind\<close> returns \<open>start\<close>, so \<open>end = start\<close>, the chunk is empty and
  \<open>start\<close> does not advance. For the text \<^verbatim>\<open>"aaaa\n\nbbbbbbbbbb"\<close> and the budget 6 neither
  file's \<open>chunk_text\<close> returns.
\<close>

theorem chunk_text_never_returns:
  "chunk_text_gpu (str ''aaaa\<newline>\<newline>bbbbbbbbbb'') 6 = None
   \<and> chunk_text g (str ''aaaa\<newline>\<newline>bbbbbbbbbb'') (Some 6) = None"
proof -
  have "chunk_loop (str ''aaaa\<newline>\<newline>bbbbbbbbbb'') 6 4 [str ''aaaa''] = None"
  proof (rule chunk_loop_stuck)
    show "rfind (str ''aaaa\<newline>\<newline>bbbbbbbbbb'') [10, 10] 4 (4 + 6) = Some 4"
      by code_simp
  qed (simp_all add: str_def)
  then show ?thesis
    by (simp add: chunk_text_gpu_def chunk_text_def chunk_loop_example)
qed

text \<open>
  Claim C2. Every chunk of a list that \<open>chunk_text\<close> returns has at most \<open>max_chars\<close> code
  points, in both files and also for the budget that resumes.py takes from
  \<open>get_ideal_chunk_size\<close>. A turn whose window ends before the end of the text and holds
  no paragraph break cuts at \<open>start + max_chars\<close> exactly, and the chunk it yields is
  within the budget.
\<close>

theorem chunk_text_length_bound:
  "(chunk_text_gpu T m = Some chunks \<longrightarrow> (\<forall>c\<in>set chunks. length c \<le> m))
   \<and> (chunk_text g T (Some m) = Some chunks \<longrightarrow> (\<forall>c\<in>set chunks. length c \<le> m))
   \<and> (chunk_text g T None = Some chunks \<longrightarrow>
        (\<forall>c\<in>set chunks. int (length c) \<le> get_ideal_chunk_size g 4000))
   \<and> (start + m < length T \<and> rfind T [10, 10] start (start + m) = None \<longrightarrow>
        chunk_loop T m start acc
          = chunk_loop T m (start + m)
              (if strip (slice T start (start + m)) \<noteq> []
               then acc @ [strip (slice T start (start + m))] else acc)
        \<and> length (strip (slice T start (start + m))) \<le> m)"
proof -
  have bound: "\<forall>c\<in>set r. length c \<le> k" if "chunk_loop T k 0 [] = Some r" for k r
    using chunk_loop_bounded [OF that] by simp
  have "\<forall>c\<in>set chunks. int (length c) \<le> get_ideal_chunk_size g 4000"
    if "chunk_text g T None = Some chunks"
  proof
    fix c assume "c \<in> set chunks"
    with bound [of "nat (get_ideal_chunk_size g 4000)" chunks] that
    have "length c \<le> nat (get_ideal_chunk_size g 4000)" by (simp add: chunk_text_loop)
    moreover have "0 < get_ideal_chunk_size g 4000"
      by (cases g) (simp_all add: get_ideal_chunk_size_def Let_def)
    ultimately show "int (length c) \<le> get_ideal_chunk_size g 4000" by arith
  qed
  moreover have "length (strip (slice T start (start + m))) \<le> m"
    using strip_length [of "slice T start (start + m)"] by (simp add: slice_def)
  ultimately show ?thesis
    using bound [of m chunks] chunk_loop_cut_at_budget [of start m T acc]
    by (simp add: chunk_text_loop)
qed

theorem chunk_text_length_bound_witness:
  "chunk_text_gpu (str ''hello world\<newline>\<newline>foo bar baz'') 15
     = Some [str ''hello world'', str ''foo bar baz'']
   \<and> length (str ''hello world'') \<le> 15 \<and> length (str ''foo bar baz'') \<le> 15
   \<and> chunk_text NoGpu (str ''hello world\<newline>\<newline>foo bar baz'') (Some 15)
     = Some [str ''hello world'', str ''foo bar baz'']
   \<and> chunk_text NoGpu (str ''  hello  '') None = Some [str ''hello'']
   \<and> int (length (str ''hello'')) \<le> get_ideal_chunk_size NoGpu 4000
   \<and> chunk_text_gpu (str ''abcdefghij'') 4 = Some [str ''abcd'', str ''efgh'', str ''ij'']"
proof -
  have a: "chunk_text_gpu (str ''hello world\<newline>\<newline>foo bar baz'') 15
     = Some [str ''hello world'', str ''foo bar baz'']"
    by (simp add: chunk_text_gpu_def chunk_loop.simps Let_def str_def rfind_def found_at_def
        strip_def slice_def isspace_def)
  have b: "chunk_text NoGpu (str ''  hello  '') None = Some [str ''hello'']"
    by (simp add: chunk_text_def get_ideal_chunk_size_def chunk_loop.simps Let_def str_def
        rfind_def found_at_def strip_def slice_def isspace_def)
  have c: "chunk_text_gpu (str ''abcdefghij'') 4 = Some [str ''abcd'', str ''efgh'', str ''ij'']"
    by (simp add: chunk_text_gpu_def chunk_loop.simps Let_def str_def rfind_def found_at_def
        strip_def slice_def isspace_def)
  have d: "0 + 4 < length (str ''abcdefghij'')
      \<and> rfind (str ''abcdefghij'') [10, 10] 0 (0 + 4) = None"
    by (simp add: str_def rfind_def found_at_def)
  show ?thesis
    using a b c d
      chunk_text_length_bound [of "str ''hello world\<newline>\<newline>foo bar baz''" 15
        "[str ''hello world'', str ''foo bar baz'']" NoGpu 0 "[]"]
      chunk_text_length_bound [of "str ''  hello  ''" 15 "[str ''hello'']" NoGpu 0 "[]"]
      chunk_text_length_bound [of "str ''abcdefghij''" 4
        "[str ''abcd'', str ''efgh'', str ''ij'']" NoGpu 0 "[]"]
    by (simp add: chunk_text_loop)
qed

text \<open>
  Claim C3. When \<open>chunk_text\<close> returns, the text is its chunks, in their order, with a
  run of white space before each and one at the end: the separators and the white space
  that \<open>strip\<close> removed. So the code points of the text that are not white space are
  those of the chunks, none lost, none twice, in the same order; and no chunk is empty or
  starts or ends with white space.
\<close>

theorem chunk_text_reconstructs:
  assumes "chunk_text_gpu T m = Some chunks \<or> chunk_text g T (Some m) = Some chunks
           \<or> chunk_text g T None = Some chunks"
  shows "(\<exists>gaps tail. length gaps = length chunks
            \<and> (\<forall>g\<in>set gaps. \<forall>c\<in>set g. isspace c) \<and> (\<forall>c\<in>set tail. isspace c)
            \<and> T = concat (map2 (@) gaps chunks) @ tail)
         \<and> filter (\<lambda>c. \<not> isspace c) (concat chunks) = filter (\<lambda>c. \<not> isspace c) T
         \<and> (\<forall>c\<in>set chunks. c \<noteq> [] \<and> \<not> isspace (hd c) \<and> \<not> isspace (last c))"
proof -
  from assms obtain k where ret: "chunk_loop T k 0 [] = Some chunks"
    by (auto simp: chunk_text_loop)
  from chunk_loop_weave [OF ret] obtain gaps tail where w: "length gaps = length chunks"
    "\<forall>g\<in>set gaps. \<forall>c\<in>set g. isspace c" "\<forall>c\<in>set tail. isspace c"
    "T = concat (map2 (@) gaps chunks) @ tail"
    by blast
  have "filter (\<lambda>c. \<not> isspace c) T
      = filter (\<lambda>c. \<not> isspace c) (concat (map2 (@) gaps chunks)) @ filter (\<lambda>c. \<not> isspace c) tail"
    by (subst w(4)) simp
  also have "filter (\<lambda>c. \<not> isspace c) tail = []"
    using w(3) by (simp add: filter_empty_conv)
  finally have "filter (\<lambda>c. \<not> isspace c) T = filter (\<lambda>c. \<not> isspace c) (concat chunks)"
    using filter_weave [OF w(1,2)] by simp
  with w chunk_loop_trimmed [OF ret] show ?thesis by metis
qed

theorem chunk_text_reconstructs_witness:
  "chunk_text_gpu (str ''hello world\<newline>\<newline>foo bar baz '') 15
     = Some [str ''hello world'', str ''foo bar baz'']
   \<and> (\<exists>gaps tail. length gaps = 2
         \<and> (\<forall>g\<in>set gaps. \<forall>c\<in>set g. isspace c) \<and> (\<forall>c\<in>set tail. isspace c)
         \<and> str ''hello world\<newline>\<newline>foo bar baz ''
             = concat (map2 (@) gaps [str ''hello world'', str ''foo bar baz'']) @ tail)
   \<and> filter (\<lambda>c. \<not> isspace c) (str ''hello world'' @ str ''foo bar baz'')
       = filter (\<lambda>c. \<not> isspace c) (str ''hello world\<newline>\<newline>foo bar baz '')"
proof -
  have a: "chunk_text_gpu (str ''hello world\<newline>\<newline>foo bar baz '') 15
     = Some [str ''hello world'', str ''foo bar baz'']"
    by (simp add: chunk_text_gpu_def chunk_loop.simps Let_def str_def rfind_def found_at_def
        strip_def slice_def isspace_def)
  from chunk_text_reconstructs [of "str ''hello world\<newline>\<newline>foo bar baz ''" 15
        "[str ''hello world'', str ''foo bar baz'']" NoGpu] a
  show ?thesis by (simp add: numeral_2_eq_2)
qed

section \<open>Properties of text extraction\<close>

text \<open>
  Both loops treat the accumulator as a prefix, and a document can be split at any page.
\<close>

lemma extract_pages_gpu_acc:
  "extract_pages_gpu reader n ps (ft, calls)
     = (ft @ fst (extract_pages_gpu reader n ps ([], [])),
        calls @ snd (extract_pages_gpu reader n ps ([], [])))"
proof (induction ps arbitrary: n ft calls)
  case Nil
  then show ?case by simp
next
  case (Cons p ps)
  note IH = Cons.IH [of "Suc n"]
  show ?case
    by (simp add: Let_def IH [of "ft @ _" calls] IH [of "[_]" "[]"]
        IH [of "ft @ _" "calls @ _"] IH [of "[_]" "[_]"]
        IH [of ft "calls @ _"] IH [of "[]" "[_]"])
qed

lemma extract_pages_gpu_append:
  "extract_pages_gpu reader n (xs @ ys) (ft, calls)
     = extract_pages_gpu reader (n + length xs) ys (extract_pages_gpu reader n xs (ft, calls))"
  by (induction xs arbitrary: n ft calls) (simp_all add: Let_def)

lemma extract_pages_gpu_calls:
  "set (snd (extract_pages_gpu reader n ps ([], []))) \<subseteq> {n ..< n + length ps}"
proof (induction ps arbitrary: n)
  case Nil
  then show ?case by simp
next
  case (Cons p ps)
  from Cons.IH [of "Suc n"]
  have "set (snd (extract_pages_gpu reader (Suc n) ps ([], []))) \<subseteq> {n ..< n + length (p # ps)}"
    by auto
  then show ?case
    by (simp add: Let_def extract_pages_gpu_acc [of _ _ _ "[_]" "[]"]
        extract_pages_gpu_acc [of _ _ _ "[_]" "[_]"] extract_pages_gpu_acc [of _ _ _ "[]" "[_]"])
qed

lemma extract_pages_gpu_split:
  assumes "i < length doc"
  shows "extract_pages_gpu reader n doc ([], [])
    = extract_pages_gpu reader (Suc (n + i)) (drop (Suc i) doc)
        (extract_pages_gpu reader (n + i) [doc ! i] (extract_pages_gpu reader n (take i doc) ([], [])))"
proof -
  from assms have doc: "doc = take i doc @ [doc ! i] @ drop (Suc i) doc"
    by (simp add: Cons_nth_drop_Suc)
  obtain ft calls where a: "extract_pages_gpu reader n (take i doc) ([], []) = (ft, calls)"
    by (cases "extract_pages_gpu reader n (take i doc) ([], [])")
  obtain ft' calls' where b: "extract_pages_gpu reader (n + i) [doc ! i] (ft, calls) = (ft', calls')"
    by (cases "extract_pages_gpu reader (n + i) [doc ! i] (ft, calls)")
  have "extract_pages_gpu reader n (take i doc @ [doc ! i] @ drop (Suc i) doc) ([], [])
    = extract_pages_gpu reader (Suc (n + i)) (drop (Suc i) doc) (ft', calls')"
    using assms a b
    by (simp only: extract_pages_gpu_append length_take min.absorb2 less_imp_le_nat
        length_Cons list.size add_Suc_right add_0_right)
  with doc a b show ?thesis by simp
qed

lemma extract_pages_acc:
  "extract_pages ocr n ps (ft, calls)
     = (case extract_pages ocr n ps ([], []) of
          Inl e \<Rightarrow> Inl e
        | Inr (f, c) \<Rightarrow> Inr (ft @ f, calls @ c))"
proof (induction ps arbitrary: n ft calls)
  case Nil
  then show ?case by simp
next
  case (Cons p ps)
  note IH = Cons.IH [of "Suc n"]
  show ?case
    by (simp add: Let_def IH [of "ft @ _" calls] IH [of "[_]" "[]"]
        IH [of "ft @ _" "calls @ _"] IH [of "[_]" "[_]"]
        IH [of ft "calls @ _"] IH [of "[]" "[_]"] split: sum.splits prod.splits)
qed

lemma extract_pages_append:
  "extract_pages ocr n (xs @ ys) acc
     = (case extract_pages ocr n xs acc of
          Inl e \<Rightarrow> Inl e
        | Inr acc' \<Rightarrow> extract_pages ocr (n + length xs) ys acc')"
proof -
  have "extract_pages ocr n (xs @ ys) (ft, calls)
     = (case extract_pages ocr n xs (ft, calls) of
          Inl e \<Rightarrow> Inl e
        | Inr acc' \<Rightarrow> extract_pages ocr (n + length xs) ys acc')" for ft calls
    by (induction xs arbitrary: n ft calls) (simp_all add: Let_def split: sum.splits)
  then show ?thesis by (cases acc) simp
qed

lemma extract_pages_calls:
  "extract_pages ocr n ps ([], []) = Inr (ft, calls) \<Longrightarrow> set calls \<subseteq> {n ..< n + length ps}"
proof (induction ps arbitrary: n ft calls)
  case Nil
  then show ?case by simp
next
  case (Cons p ps)
  from Cons.prems obtain f c where
    rest: "extract_pages ocr (Suc n) ps ([], []) = Inr (f, c)" and
    calls: "calls = c \<or> calls = n # c"
    by (auto simp: Let_def extract_pages_acc [of _ _ _ "[_]" "[]"]
        extract_pages_acc [of _ _ _ "[_]" "[_]"] extract_pages_acc [of _ _ _ "[]" "[_]"]
        split: if_splits sum.splits prod.splits)
  from Cons.IH [OF rest] have "\<forall>x\<in>set c. n \<le> x \<and> x < n + length (p # ps)" by auto
  with calls show ?case by auto
qed

lemma extract_pages_split:
  assumes "i < length doc"
  shows "extract_pages ocr n doc ([], [])
    = (case extract_pages ocr n (take i doc) ([], []) of
         Inl e \<Rightarrow> Inl e
       | Inr acc \<Rightarrow>
           (case extract_pages ocr (n + i) [doc ! i] acc of
              Inl e \<Rightarrow> Inl e
            | Inr acc' \<Rightarrow> extract_pages ocr (Suc (n + i)) (drop (Suc i) doc) acc'))"
proof -
  from assms have doc: "doc = take i doc @ [doc ! i] @ drop (Suc i) doc"
    by (simp add: Cons_nth_drop_Suc)
  have "extract_pages ocr n (take i doc @ [doc ! i] @ drop (Suc i) doc) ([], [])
    = (case extract_pages ocr n (take i doc) ([], []) of
         Inl e \<Rightarrow> Inl e
       | Inr acc \<Rightarrow>
           (case extract_pages ocr (n + i) [doc ! i] acc of
              Inl e \<Rightarrow> Inl e
            | Inr acc' \<Rightarrow> extract_pages ocr (Suc (n + i)) (drop (Suc i) doc) acc'))"
    using assms
    by (simp only: extract_pages_append length_take min.absorb2 less_imp_le_nat
        length_Cons list.size add_Suc_right add_0_right)
  with doc show ?thesis by simp
qed

lemma extract_pages_all_native:
  assumes "\<forall>p\<in>set ps. strip (native_text p) \<noteq> []"
  shows "extract_pages ocr n ps (ft, calls) = Inr (ft @ map (\<lambda>p. strip (native_text p)) ps, calls)"
    and "extract_pages_gpu reader n ps (ft, calls) = (ft @ map (\<lambda>p. strip (native_text p)) ps, calls)"
  using assms by (induction ps arbitrary: n ft) (simp_all add: Let_def)

text \<open>
  Claim C5. Let page \<open>i + 1\<close> of a document have native text that is not empty after
  trimming. In both files the loop appends exactly that trimmed text for the page,
  between what the pages before and the pages after contribute, and the number of the
  page is not among the pages handed to the OCR engine: nothing of the OCR engine enters
  the page's contribution. When every page has native text, the extracted text is the
  trimmed native texts joined by \<^verbatim>\<open>"\n\n"\<close>, whatever the OCR engine would do, and the
  engine is never called.
\<close>

theorem native_text_preferred:
  assumes "i < length doc" and "strip (native_text (doc ! i)) \<noteq> []"
  shows "(case extract_pages_gpu reader 1 (take i doc) ([], []) of (before, calls_before) \<Rightarrow>
          case extract_pages_gpu reader (i + 2) (drop (Suc i) doc) ([], []) of (after, calls_after) \<Rightarrow>
            extract_pages_gpu reader 1 doc ([], [])
              = (before @ [strip (native_text (doc ! i))] @ after, calls_before @ calls_after)
            \<and> Suc i \<notin> set (calls_before @ calls_after))
       \<and> extract_pages ocr 1 doc ([], [])
           = (case extract_pages ocr 1 (take i doc) ([], []) of
                Inl e \<Rightarrow> Inl e
              | Inr (before, calls_before) \<Rightarrow>
                  (case extract_pages ocr (i + 2) (drop (Suc i) doc) ([], []) of
                     Inl e \<Rightarrow> Inl e
                   | Inr (after, calls_after) \<Rightarrow>
                       Inr (before @ [strip (native_text (doc ! i))] @ after,
                            calls_before @ calls_after)))
       \<and> (\<forall>full_text calls. extract_pages ocr 1 doc ([], []) = Inr (full_text, calls)
            \<longrightarrow> Suc i \<notin> set calls)
       \<and> ((\<forall>p\<in>set doc. strip (native_text p) \<noteq> []) \<and> fs pdf_path = Pdf doc \<longrightarrow>
            extract_text_from_pdf_gpu fs reader pdf_path
              = (join [10, 10] (map (\<lambda>p. strip (native_text p)) doc), [])
            \<and> extract_text_from_pdf fs ocr pdf_path
              = Inr (join [10, 10] (map (\<lambda>p. strip (native_text p)) doc), []))"
proof -
  obtain b cb where b: "extract_pages_gpu reader 1 (take i doc) ([], []) = (b, cb)"
    by (cases "extract_pages_gpu reader 1 (take i doc) ([], [])")
  obtain a ca where a: "extract_pages_gpu reader (i + 2) (drop (Suc i) doc) ([], []) = (a, ca)"
    by (cases "extract_pages_gpu reader (i + 2) (drop (Suc i) doc) ([], [])")
  have cb: "set cb \<subseteq> {1 ..< 1 + i}"
    using extract_pages_gpu_calls [of reader 1 "take i doc"] assms(1) b by simp
  have ca: "set ca \<subseteq> {i + 2 ..< i + 2 + length (drop (Suc i) doc)}"
    using extract_pages_gpu_calls [of reader "i + 2" "drop (Suc i) doc"] a by simp
  have gpu: "extract_pages_gpu reader 1 doc ([], [])
      = (b @ [strip (native_text (doc ! i))] @ a, cb @ ca)"
    using assms(2) a b
    by (simp add: extract_pages_gpu_split [OF assms(1)] Let_def
        extract_pages_gpu_acc [of _ _ "drop (Suc i) doc" "b @ _" cb])
  have gpu_calls: "Suc i \<notin> set (cb @ ca)"
    using cb ca by auto
  have res: "extract_pages ocr 1 doc ([], [])
           = (case extract_pages ocr 1 (take i doc) ([], []) of
                Inl e \<Rightarrow> Inl e
              | Inr (before, calls_before) \<Rightarrow>
                  (case extract_pages ocr (i + 2) (drop (Suc i) doc) ([], []) of
                     Inl e \<Rightarrow> Inl e
                   | Inr (after, calls_after) \<Rightarrow>
                       Inr (before @ [strip (native_text (doc ! i))] @ after,
                            calls_before @ calls_after)))"
    using assms(2)
    by (simp add: extract_pages_split [OF assms(1)] Let_def
        extract_pages_acc [of _ _ "drop (Suc i) doc" "_ @ _" _] split: sum.splits prod.splits)
  have res_calls: "Suc i \<notin> set calls" if "extract_pages ocr 1 doc ([], []) = Inr (ft, calls)"
    for ft calls
  proof -
    from that [unfolded res] obtain b' cb' a' ca' where
      1: "extract_pages ocr 1 (take i doc) ([], []) = Inr (b', cb')" and
      2: "extract_pages ocr (i + 2) (drop (Suc i) doc) ([], []) = Inr (a', ca')" and
      3: "calls = cb' @ ca'"
      by (auto split: sum.splits prod.splits)
    from extract_pages_calls [OF 1] extract_pages_calls [OF 2] assms(1) 3
    show ?thesis by auto
  qed
  have all: "extract_text_from_pdf_gpu fs reader pdf_path
              = (join [10, 10] (map (\<lambda>p. strip (native_text p)) doc), [])
            \<and> extract_text_from_pdf fs ocr pdf_path
              = Inr (join [10, 10] (map (\<lambda>p. strip (native_text p)) doc), [])"
    if "\<forall>p\<in>set doc. strip (native_text p) \<noteq> []" "fs pdf_path = Pdf doc"
    using that
    by (simp add: extract_text_from_pdf_gpu_def extract_text_from_pdf_def
        extract_pages_all_native)
  show ?thesis
    using a b gpu gpu_calls res res_calls all by simp
qed

theorem native_text_preferred_witness:
  "extract_pages_gpu broken_reader 1 scan_doc ([], [])
     = ([str ''Hello world.'', str ''Last page''], [2])
   \<and> extract_text_from_pdf_gpu text_fs broken_reader (str ''text.pdf'')
     = (str ''Hello world.\<newline>\<newline>Last page'', [])
   \<and> extract_text_from_pdf text_fs broken_ocr (str ''text.pdf'')
     = Inr (str ''Hello world.\<newline>\<newline>Last page'', [])"
  using native_text_preferred [where i = 0 and doc = scan_doc and reader = broken_reader
      and ocr = broken_ocr and fs = scan_fs and pdf_path = "str ''scan.pdf''"]
    native_text_preferred [where i = 0 and doc = text_doc and reader = broken_reader
      and ocr = broken_ocr and fs = text_fs and pdf_path = "str ''text.pdf''"]
  by (simp add: scan_doc_def text_doc_def text_fs_def broken_reader_def broken_ocr_def
      str_def strip_def isspace_def Let_def)

text \<open>
  Claim C7, as amended. The claim says that both files catch an exception of the OCR
  engine. Only resume\_ocr\_gpu.py does: there a page without native text on which the
  engine raises adds nothing to \<open>full_text\<close>, and the pages before and after it are
  extracted as they would be without it. In resumes.py no handler stands around the call
  of the engine: the exception leaves \<open>extract_text_from_pdf\<close>, and the pages after it
  are not read.
\<close>

theorem ocr_failure_caught_in_gpu_pipeline:
  assumes "i < length doc" and "strip (native_text (doc ! i)) = []"
  shows "(reader (pixmap (doc ! i)) = Inl e \<longrightarrow>
           (case extract_pages_gpu reader 1 (take i doc) ([], []) of (before, calls_before) \<Rightarrow>
            case extract_pages_gpu reader (i + 2) (drop (Suc i) doc) ([], []) of (after, calls_after) \<Rightarrow>
              extract_pages_gpu reader 1 doc ([], [])
                = (before @ after, calls_before @ [Suc i] @ calls_after)))
       \<and> (ocr (pixmap (doc ! i)) = Inl e \<longrightarrow>
            extract_pages ocr 1 doc ([], [])
              = (case extract_pages ocr 1 (take i doc) ([], []) of
                   Inl e' \<Rightarrow> Inl e'
                 | Inr acc \<Rightarrow> Inl e)
            \<and> (fs pdf_path = Pdf doc \<longrightarrow> (\<exists>e'. extract_text_from_pdf fs ocr pdf_path = Inl e')))"
proof -
  obtain b cb where b: "extract_pages_gpu reader 1 (take i doc) ([], []) = (b, cb)"
    by (cases "extract_pages_gpu reader 1 (take i doc) ([], [])")
  obtain a ca where a: "extract_pages_gpu reader (i + 2) (drop (Suc i) doc) ([], []) = (a, ca)"
    by (cases "extract_pages_gpu reader (i + 2) (drop (Suc i) doc) ([], [])")
  have gpu: "extract_pages_gpu reader 1 doc ([], []) = (b @ a, cb @ [Suc i] @ ca)"
    if "reader (pixmap (doc ! i)) = Inl e"
    using assms(2) a b that
    by (simp add: extract_pages_gpu_split [OF assms(1)] Let_def
        extract_pages_gpu_acc [of _ _ "drop (Suc i) doc" b "cb @ _"])
  have res: "extract_pages ocr 1 doc ([], [])
              = (case extract_pages ocr 1 (take i doc) ([], []) of
                   Inl e' \<Rightarrow> Inl e'
                 | Inr acc \<Rightarrow> Inl e)"
    if "ocr (pixmap (doc ! i)) = Inl e"
    using assms(2) that
    by (simp add: extract_pages_split [OF assms(1)] Let_def split: sum.splits prod.splits)
  have "\<exists>e'. extract_text_from_pdf fs ocr pdf_path = Inl e'"
    if "ocr (pixmap (doc ! i)) = Inl e" "fs pdf_path = Pdf doc"
    using res [OF that(1)] that(2)
    by (simp add: extract_text_from_pdf_def split: sum.splits)
  with gpu res a b show ?thesis by simp
qed

theorem ocr_failure_caught_in_gpu_pipeline_witness:
  "extract_pages_gpu broken_reader 1 scan_doc ([], [])
     = ([str ''Hello world.'', str ''Last page''], [2])
   \<and> extract_pages broken_ocr 1 scan_doc ([], []) = Inl OcrFailure
   \<and> (\<exists>e'. extract_text_from_pdf scan_fs broken_ocr (str ''scan.pdf'') = Inl e')"
  using ocr_failure_caught_in_gpu_pipeline [where i = 1 and doc = scan_doc
      and reader = broken_reader and ocr = broken_ocr and e = OcrFailure and fs = scan_fs
      and pdf_path = "str ''scan.pdf''"]
  by (simp add: scan_doc_def scan_fs_def broken_reader_def broken_ocr_def
      str_def strip_def isspace_def Let_def)

text \<open>
  The counterexample to claim C7 as it is stated: a document whose second page is a scan,
  and an OCR engine that raises. resumes.py ends with the exception; resume\_ocr\_gpu.py
  returns the text of the other two pages.
\<close>

theorem ocr_failure_aborts_resumes_extraction:
  "extract_text_from_pdf scan_fs broken_ocr (str ''scan.pdf'') = Inl OcrFailure
   \<and> extract_text_from_pdf_gpu scan_fs broken_reader (str ''scan.pdf'')
       = (str ''Hello world.\<newline>\<newline>Last page'', [2])"
  by (simp add: extract_text_from_pdf_def extract_text_from_pdf_gpu_def scan_doc_def scan_fs_def
      broken_reader_def broken_ocr_def str_def strip_def isspace_def Let_def)

section \<open>A document on which \<open>main\<close> never writes\<close>

lemma strip_no_space:
  assumes "\<forall>c\<in>set s. \<not> isspace c"
  shows "strip s = s"
proof -
  from assms have "dropWhile isspace s = s"
    by (cases s) simp_all
  moreover from assms have "dropWhile isspace (rev s) = rev s"
    by (cases "rev s") (simp, metis dropWhile.simps(2) list.set_intros(1) set_rev)
  ultimately show ?thesis by (simp add: strip_def)
qed

lemma long_text_breaks:
  "found_at (str ''aaaa'' @ [10, 10] @ replicate n 98) [10, 10] 4"
  "4 < j \<Longrightarrow> \<not> found_at (str ''aaaa'' @ [10, 10] @ replicate n 98) [10, 10] j"
proof -
  show "found_at (str ''aaaa'' @ [10, 10] @ replicate n 98) [10, 10] 4"
    by (simp add: found_at_def str_def)
  assume "4 < j"
  define k where "k = j - 5"
  with \<open>4 < j\<close> have j: "j = 5 + k" by simp
  have len: "length (str ''aaaa'') = 4" by (simp add: str_def)
  have "drop j (str ''aaaa'' @ [10, 10] @ replicate n 98) = drop k (10 # replicate n 98)"
    unfolding j by (simp add: len)
  moreover have "take 2 (drop k (10 # replicate n (98::nat))) \<noteq> [10, 10]"
  proof (cases k)
    case 0
    then show ?thesis by (cases n) (simp_all add: numeral_2_eq_2)
  next
    case (Suc k')
    have "set (take 2 (drop k (10 # replicate n (98::nat)))) \<subseteq> {98}"
      unfolding Suc by (auto dest!: in_set_takeD in_set_dropD)
    then show ?thesis by auto
  qed
  ultimately show "\<not> found_at (str ''aaaa'' @ [10, 10] @ replicate n 98) [10, 10] j"
    by (simp add: found_at_def numeral_2_eq_2)
qed

lemma long_text_rfind:
  assumes "lo \<le> 4" and "6 \<le> hi" and "hi \<le> 6 + n"
  shows "rfind (str ''aaaa'' @ [10, 10] @ replicate n 98) [10, 10] lo hi = Some 4"
proof (rule rfind_SomeI)
  show "lo \<le> 4" by fact
  show "4 + length [10, 10 :: nat] \<le> min hi (length (str ''aaaa'' @ [10, 10] @ replicate n 98))"
    using assms by (simp add: str_def)
  show "found_at (str ''aaaa'' @ [10, 10] @ replicate n 98) [10, 10] 4"
    by (rule long_text_breaks(1))
  show "\<not> found_at (str ''aaaa'' @ [10, 10] @ replicate n 98) [10, 10] j" if "4 < j" for j
    using that by (rule long_text_breaks(2))
qed

lemma long_text_never_returns:
  assumes "6 \<le> m" and "m \<le> n"
  shows "chunk_loop (str ''aaaa'' @ [10, 10] @ replicate n 98) m 0 [] = None"
proof -
  define T where "T = str ''aaaa'' @ [10, 10] @ replicate n 98"
  have len: "length T = 6 + n" by (simp add: T_def str_def)
  have ne: "str ''aaaa'' \<noteq> []" by (simp add: str_def)
  have st: "strip (slice T 0 4) = str ''aaaa''"
    by (simp add: T_def slice_def str_def strip_def isspace_def)
  have stuck: "chunk_loop T m 4 chunks = None" for chunks
  proof (rule chunk_loop_stuck)
    show "rfind T [10, 10] 4 (4 + m) = Some 4"
      unfolding T_def using assms by (intro long_text_rfind) simp_all
  qed (use assms len in simp_all)
  have "rfind T [10, 10] 0 (0 + m) = Some 4"
    unfolding T_def using assms by (intro long_text_rfind) simp_all
  then have "chunk_loop T m 0 [] = chunk_loop T m 4 [str ''aaaa'']"
    using assms by (subst chunk_loop.simps) (simp add: Let_def len st ne)
  with stuck show ?thesis unfolding T_def by simp
qed

text \<open>
  Claim C9 says that \<open>main\<close> of resume\_ocr\_gpu.py writes the final synthesis whenever
  extraction yields text that is not empty. It does not on a document whose first page
  reads \<^verbatim>\<open>aaaa\<close> and whose second page is 4000 letters \<^verbatim>\<open>b\<close> with no paragraph break:
  the extracted text is the two pages joined by \<^verbatim>\<open>"\n\n"\<close>, \<open>chunk_text\<close> with the
  budget 4000 cuts at the break, the next window holds no later break and ends before
  the end of the text, and the loop stays at \<open>start = 4\<close>. \<open>main\<close> never reaches the
  summaries or the write, whatever the OCR engine, the LLM service and the file system
  do.
\<close>

theorem main_gpu_never_writes:
  "main_gpu long_page_fs reader llm writable (str ''long.pdf'') output_path model = None"
proof -
  have "\<forall>p\<in>set long_page_doc. strip (native_text p) \<noteq> []"
    by (simp add: long_page_doc_def strip_no_space isspace_def str_def)
  then have "extract_pages_gpu reader 1 long_page_doc ([], [])
      = ([] @ map (\<lambda>p. strip (native_text p)) long_page_doc, [])"
    by (rule extract_pages_all_native)
  also have "map (\<lambda>p. strip (native_text p)) long_page_doc = [str ''aaaa'', replicate 4000 98]"
    by (simp add: long_page_doc_def strip_no_space isspace_def str_def)
  finally have extracted: "fst (extract_text_from_pdf_gpu long_page_fs reader (str ''long.pdf''))
      = str ''aaaa'' @ [10, 10] @ replicate 4000 98"
    by (simp add: extract_text_from_pdf_gpu_def long_page_fs_def)
  have "chunk_text_gpu (str ''aaaa'' @ [10, 10] @ replicate 4000 98) 4000 = None"
    unfolding chunk_text_gpu_def by (rule long_text_never_returns) simp_all
  with extracted show ?thesis
    by (simp add: main_gpu_def Let_def)
qed

section \<open>Properties of file names and of \<open>process_papers\<close>\<close>

lemma lower_append: "lower (a @ b) = lower a @ lower b"
  by (simp add: lower_def)

lemma endswith_append: "endswith (a @ b) b"
  by (simp add: endswith_def)

lemma endswith_iff: "endswith s suf \<longleftrightarrow> (\<exists>a. s = a @ suf)"
proof
  assume "endswith s suf"
  then have "s = take (length s - length suf) s @ suf"
    by (metis append_take_drop_id endswith_def)
  then show "\<exists>a. s = a @ suf" ..
next
  assume "\<exists>a. s = a @ suf"
  then show "endswith s suf" by (auto simp: endswith_append)
qed

lemma selected_iff:
  "endswith (lower fname) (str ''.pdf'')
     \<longleftrightarrow> (\<exists>stem ext. fname = stem @ ext \<and> lower ext = str ''.pdf'')"
proof
  assume sel: "endswith (lower fname) (str ''.pdf'')"
  define k where "k = length fname - 4"
  have len: "length (str ''.pdf'') = 4" by (simp add: str_def)
  from sel have "drop k (lower fname) = str ''.pdf''"
    by (simp add: endswith_def k_def len lower_def)
  then have "lower (drop k fname) = str ''.pdf''"
    by (simp add: lower_def drop_map)
  moreover have "fname = take k fname @ drop k fname" by simp
  ultimately show "\<exists>stem ext. fname = stem @ ext \<and> lower ext = str ''.pdf''" by blast
next
  assume "\<exists>stem ext. fname = stem @ ext \<and> lower ext = str ''.pdf''"
  then obtain stem ext where "fname = stem @ ext" "lower ext = str ''.pdf''" by blast
  then show "endswith (lower fname) (str ''.pdf'')"
    by (simp add: lower_append endswith_append)
qed

declare replace_from.simps [simp del]

lemma replace_from_Nil [simp]: "replace_from [] old new = []"
  by (subst replace_from.simps) simp

lemma startswith_pdf_append:
  assumes "a \<noteq> []"
  shows "startswith (a @ str ''.pdf'' @ b) (str ''.pdf'') = startswith a (str ''.pdf'')"
proof -
  have len: "length (str ''.pdf'') = 4" by (simp add: str_def)
  show ?thesis
  proof (cases "4 \<le> length a")
    case True
    then show ?thesis by (simp add: startswith_def len)
  next
    case False
    with assms obtain x1 a1 where a: "a = x1 # a1" and "length a1 < 3"
      by (cases a) auto
    then show ?thesis
      by (cases a1; cases "tl a1"; cases "tl (tl a1)")
         (auto simp: startswith_def str_def)
  qed
qed

lemma replace_from_pdf_append:
  "replace_from (a @ str ''.pdf'' @ b) (str ''.pdf'') []
     = replace_from a (str ''.pdf'') [] @ replace_from b (str ''.pdf'') []"
proof (induction a rule: length_induct)
  case (1 a)
  then have hyp: "replace_from (ys @ str ''.pdf'' @ b) (str ''.pdf'') []
      = replace_from ys (str ''.pdf'') [] @ replace_from b (str ''.pdf'') []"
    if "length ys < length a" for ys
    using that by blast
  have len: "length (str ''.pdf'') = 4" and ne: "str ''.pdf'' \<noteq> []"
    by (simp_all add: str_def)
  show ?case
  proof (cases "a = []")
    case True
    have "replace_from (str ''.pdf'' @ b) (str ''.pdf'') [] = replace_from b (str ''.pdf'') []"
      by (subst replace_from.simps) (simp add: startswith_def ne)
    with True show ?thesis by simp
  next
    case False
    show ?thesis
    proof (cases "startswith a (str ''.pdf'')")
      case True
      then have "length (take 4 a) = 4"
        by (simp only: startswith_def len)
      then have la: "4 \<le> length a" by simp
      then have d: "drop 4 (a @ str ''.pdf'' @ b) = drop 4 a @ str ''.pdf'' @ b" by simp
      from la have "length (drop 4 a) < length a" by simp
      then have IH: "replace_from (drop 4 a @ str ''.pdf'' @ b) (str ''.pdf'') []
          = replace_from (drop 4 a) (str ''.pdf'') [] @ replace_from b (str ''.pdf'') []"
        by (rule hyp)
      have "replace_from (a @ str ''.pdf'' @ b) (str ''.pdf'') []
          = replace_from (drop 4 a @ str ''.pdf'' @ b) (str ''.pdf'') []"
        using True False
        by (subst replace_from.simps) (simp add: startswith_pdf_append len ne la)
      moreover have "replace_from a (str ''.pdf'') [] = replace_from (drop 4 a) (str ''.pdf'') []"
        using True False by (subst replace_from.simps) (simp add: len ne)
      ultimately show ?thesis using IH by simp
    next
      case nostart: False
      from False obtain c a' where a: "a = c # a'" by (cases a) auto
      then have "length a' < length a" by simp
      then have IH: "replace_from (a' @ str ''.pdf'' @ b) (str ''.pdf'') []
          = replace_from a' (str ''.pdf'') [] @ replace_from b (str ''.pdf'') []"
        by (rule hyp)
      have "replace_from (a @ str ''.pdf'' @ b) (str ''.pdf'') []
          = c # replace_from (a' @ str ''.pdf'' @ b) (str ''.pdf'') []"
        using nostart False startswith_pdf_append [OF False, of b]
        by (subst replace_from.simps) (simp add: a)
      moreover have "replace_from a (str ''.pdf'') [] = c # replace_from a' (str ''.pdf'') []"
        using nostart by (subst replace_from.simps) (simp add: a)
      ultimately show ?thesis using IH by simp
    qed
  qed
qed

lemma replace_from_absent:
  "(\<And>i. \<not> startswith (drop i s) old) \<Longrightarrow> replace_from s old new = s"
proof (induction s)
  case Nil
  then show ?case by simp
next
  case (Cons c s)
  have "\<not> startswith (drop i s) old" for i
    using Cons.prems [of "Suc i"] by simp
  then have "replace_from s old new = s" by (rule Cons.IH)
  moreover have "\<not> startswith (c # s) old" using Cons.prems [of 0] by simp
  ultimately show ?case by (subst replace_from.simps) simp
qed

lemma process_files_keys:
  assumes "process_files fs ocr g llm directory model fnames summaries = Some (Inr result)"
  shows "fst ` set result \<subseteq> fst ` set summaries
           \<union> {replace fname (str ''.pdf'') [] | fname.
                fname \<in> set fnames \<and> endswith (lower fname) (str ''.pdf'')}"
  using assms
proof (induction fnames arbitrary: summaries)
  case Nil
  then show ?case by simp
next
  case (Cons fname fnames)
  let ?K = "\<lambda>fs. {replace f (str ''.pdf'') [] | f. f \<in> set fs \<and> endswith (lower f) (str ''.pdf'')}"
  from Cons.prems consider
      (skip) "process_files fs ocr g llm directory model fnames summaries = Some (Inr result)"
    | (add) s where "endswith (lower fname) (str ''.pdf'')"
        "process_files fs ocr g llm directory model fnames
           (AList.update (replace fname (str ''.pdf'') []) s summaries) = Some (Inr result)"
    by (auto simp: Let_def split: if_splits sum.splits prod.splits option.splits)
  then show ?case
  proof cases
    case skip
    from Cons.IH [OF skip] show ?thesis by auto
  next
    case add
    from Cons.IH [OF add(2)] add(1) show ?thesis
      by (auto simp: AList.dom_update)
  qed
qed

text \<open>A run of \<open>process_papers\<close> on the sample directory, step by step.\<close>

lemma sorted_names:
  "sort [str ''notes.txt'', str ''b.pdf.v2.pdf'', str ''X.PDF'']
     = [str ''X.PDF'', str ''b.pdf.v2.pdf'', str ''notes.txt'']"
  by (simp add: str_def)

lemma text_doc_extracted:
  "extract_text_from_pdf papers_fs ocr (str ''papers/X.PDF'')
     = Inr (str ''Hello world.\<newline>\<newline>Last page'', [])"
  "extract_text_from_pdf papers_fs ocr (str ''papers/b.pdf.v2.pdf'')
     = Inr (str ''Hello world.\<newline>\<newline>Last page'', [])"
  by (simp_all add: extract_text_from_pdf_def papers_fs_def text_doc_def Let_def str_def
      strip_def isspace_def)

lemma text_doc_chunks:
  "chunk_text NoGpu (str ''Hello world.\<newline>\<newline>Last page'') None
     = Some [str ''Hello world.\<newline>\<newline>Last page'']"
  by (simp add: chunk_text_def get_ideal_chunk_size_def chunk_loop.simps Let_def str_def
      strip_def slice_def isspace_def)

lemma sample_paths:
  "path_join (str ''papers'') (str ''X.PDF'') = str ''papers/X.PDF''"
  "path_join (str ''papers'') (str ''b.pdf.v2.pdf'') = str ''papers/b.pdf.v2.pdf''"
  by (simp_all add: path_join_def startswith_def endswith_def str_def)

lemma sample_selected:
  "endswith (lower (str ''X.PDF'')) (str ''.pdf'')"
  "endswith (lower (str ''b.pdf.v2.pdf'')) (str ''.pdf'')"
  "\<not> endswith (lower (str ''notes.txt'')) (str ''.pdf'')"
  by (simp_all add: endswith_def lower_def str_def)

lemma sample_keys:
  "replace (str ''X.PDF'') (str ''.pdf'') [] = str ''X.PDF''"
  "replace (str ''b.pdf.v2.pdf'') (str ''.pdf'') [] = str ''b.v2''"
  by (simp_all add: replace_def replace_from.simps startswith_def str_def)

lemma papers_run:
  "process_papers papers_listdir papers_fs broken_ocr NoGpu fixed_llm (str ''papers'')
     (str ''gemma3:27b'')
   = Some (Inr [(str ''X.PDF'', str ''Resumo.''), (str ''b.v2'', str ''Resumo.'')])"
proof -
  have ne: "str ''Hello world.\<newline>\<newline>Last page'' \<noteq> []" "str ''X.PDF'' \<noteq> str ''b.v2''"
    by (simp_all add: str_def)
  have s: "strip (str ''Resumo. '') = str ''Resumo.''"
    by (simp add: str_def strip_def isspace_def)
  have lst: "papers_listdir (str ''papers'')
      = Inr [str ''notes.txt'', str ''b.pdf.v2.pdf'', str ''X.PDF'']"
    by (simp add: papers_listdir_def)
  show ?thesis
    unfolding process_papers_def lst sum.case sorted_names
    by (simp add: sample_selected sample_paths text_doc_extracted text_doc_chunks sample_keys ne
        summarize_chunk_def
        synthesize_summaries_single_def fixed_llm_def s)
qed

lemma papers_run_down:
  "process_papers papers_listdir papers_fs broken_ocr NoGpu down_llm (str ''papers'')
     (str ''gemma3:27b'')
   = Some (Inl ConnectionFailure)"
proof -
  have ne: "str ''Hello world.\<newline>\<newline>Last page'' \<noteq> []"
    by (simp_all add: str_def)
  have lst: "papers_listdir (str ''papers'')
      = Inr [str ''notes.txt'', str ''b.pdf.v2.pdf'', str ''X.PDF'']"
    by (simp add: papers_listdir_def)
  show ?thesis
    unfolding process_papers_def lst sum.case sorted_names
    by (simp add: sample_selected sample_paths text_doc_extracted text_doc_chunks ne
        summarize_chunk_def
        down_llm_def)
qed

lemma process_files_keeps_keys:
  assumes "process_files fs ocr g llm directory model fnames summaries = Some (Inr result)"
  shows "fst ` set summaries \<subseteq> fst ` set result"
  using assms
proof (induction fnames arbitrary: summaries)
  case Nil
  then show ?case by simp
next
  case (Cons fname fnames)
  from Cons.prems consider
      (skip) "process_files fs ocr g llm directory model fnames summaries = Some (Inr result)"
    | (add) s where
        "process_files fs ocr g llm directory model fnames
           (AList.update (replace fname (str ''.pdf'') []) s summaries) = Some (Inr result)"
    by (auto simp: Let_def split: if_splits sum.splits prod.splits option.splits)
  then show ?case
  proof cases
    case skip
    then show ?thesis by (rule Cons.IH)
  next
    case add
    from Cons.IH [OF add] show ?thesis by (auto simp: AList.dom_update)
  qed
qed

lemma process_files_has_key:
  assumes "process_files fs ocr g llm directory model fnames summaries = Some (Inr result)"
    and "fname \<in> set fnames" and "endswith (lower fname) (str ''.pdf'')"
    and "extract_text_from_pdf fs ocr (path_join directory fname) = Inr (extracted, ocr_calls)"
    and "extracted \<noteq> []"
  shows "replace fname (str ''.pdf'') [] \<in> fst ` set result"
  using assms(1,2)
proof (induction fnames arbitrary: summaries)
  case Nil
  then show ?case by simp
next
  case (Cons f fnames)
  show ?case
  proof (cases "f = fname")
    case True
    with Cons.prems(1) assms(3,4,5) obtain s where
      "process_files fs ocr g llm directory model fnames
           (AList.update (replace fname (str ''.pdf'') []) s summaries) = Some (Inr result)"
      by (auto simp: Let_def split: sum.splits option.splits)
    from process_files_keeps_keys [OF this] show ?thesis
      by (auto simp: AList.dom_update)
  next
    case False
    with Cons.prems(2) have mem: "fname \<in> set fnames" by simp
    from Cons.prems(1) obtain summaries' where
      "process_files fs ocr g llm directory model fnames summaries' = Some (Inr result)"
      by (auto simp: Let_def split: if_splits sum.splits prod.splits option.splits)
    from Cons.IH [OF this mem] show ?thesis .
  qed
qed

text \<open>
  Claim C10. \<open>process_papers\<close> selects a file when its name ends in \<^verbatim>\<open>.pdf\<close> in any
  mix of upper and lower case, so every name \<^verbatim>\<open>stem.PDF\<close> is selected. The key of a
  selected file is its name with every occurrence of the lower-case \<^verbatim>\<open>.pdf\<close> removed,
  wherever it stands: a name without that substring, such as \<^verbatim>\<open>X.PDF\<close>, is its own key.
  When \<open>process_papers\<close> returns a dictionary, each of its keys is the key of a selected
  file of the directory, and each selected file with extracted text has its key in it.
\<close>

theorem process_papers_title_keys:
  "(endswith (lower fname) (str ''.pdf'')
      \<longleftrightarrow> (\<exists>stem ext. fname = stem @ ext \<and> lower ext = str ''.pdf''))
   \<and> endswith (lower (stem @ str ''.PDF'')) (str ''.pdf'')
   \<and> replace (a @ str ''.pdf'' @ b) (str ''.pdf'') []
       = replace a (str ''.pdf'') [] @ replace b (str ''.pdf'') []
   \<and> ((\<forall>i. \<not> startswith (drop i fname) (str ''.pdf''))
        \<longrightarrow> replace fname (str ''.pdf'') [] = fname)
   \<and> replace (str ''X.PDF'') (str ''.pdf'') [] = str ''X.PDF''
   \<and> (process_papers listdir fs ocr g llm directory model = Some (Inr summaries) \<longrightarrow>
        (\<exists>names. listdir directory = Inr names
           \<and> fst ` set summaries
               \<subseteq> {replace f (str ''.pdf'') [] | f.
                    f \<in> set names \<and> endswith (lower f) (str ''.pdf'')}
           \<and> (\<forall>f\<in>set names. \<forall>extracted ocr_calls.
                 endswith (lower f) (str ''.pdf'')
                 \<and> extract_text_from_pdf fs ocr (path_join directory f)
                     = Inr (extracted, ocr_calls)
                 \<and> extracted \<noteq> []
                 \<longrightarrow> replace f (str ''.pdf'') [] \<in> fst ` set summaries)))"
proof -
  have ne: "str ''.pdf'' \<noteq> []" by (simp add: str_def)
  have up: "endswith (lower (stem @ str ''.PDF'')) (str ''.pdf'')"
  proof -
    have "lower (str ''.PDF'') = str ''.pdf''" by (simp add: lower_def str_def)
    then show ?thesis by (simp add: lower_append endswith_append)
  qed
  have run: "\<exists>names. listdir directory = Inr names
           \<and> fst ` set summaries
               \<subseteq> {replace f (str ''.pdf'') [] | f.
                    f \<in> set names \<and> endswith (lower f) (str ''.pdf'')}
           \<and> (\<forall>f\<in>set names. \<forall>extracted ocr_calls.
                 endswith (lower f) (str ''.pdf'')
                 \<and> extract_text_from_pdf fs ocr (path_join directory f)
                     = Inr (extracted, ocr_calls)
                 \<and> extracted \<noteq> []
                 \<longrightarrow> replace f (str ''.pdf'') [] \<in> fst ` set summaries)"
    if "process_papers listdir fs ocr g llm directory model = Some (Inr summaries)"
  proof -
    from that obtain names where names: "listdir directory = Inr names"
      and files: "process_files fs ocr g llm directory model (sort names) [] = Some (Inr summaries)"
      by (auto simp: process_papers_def split: sum.splits)
    from process_files_keys [OF files]
    have "fst ` set summaries
        \<subseteq> {replace f (str ''.pdf'') [] | f. f \<in> set names \<and> endswith (lower f) (str ''.pdf'')}"
      by simp
    moreover have "replace f (str ''.pdf'') [] \<in> fst ` set summaries"
      if "f \<in> set names" "endswith (lower f) (str ''.pdf'')"
        "extract_text_from_pdf fs ocr (path_join directory f) = Inr (extracted, ocr_calls)"
        "extracted \<noteq> []" for f extracted ocr_calls
      using process_files_has_key [OF files _ that(2,3,4)] that(1) by simp
    ultimately show ?thesis using names by blast
  qed
  have c3: "replace (a @ str ''.pdf'' @ b) (str ''.pdf'') []
       = replace a (str ''.pdf'') [] @ replace b (str ''.pdf'') []"
    by (simp add: replace_def ne replace_from_pdf_append)
  have c4: "replace fname (str ''.pdf'') [] = fname"
    if "\<forall>i. \<not> startswith (drop i fname) (str ''.pdf'')"
    using that by (simp add: replace_def ne replace_from_absent)
  from selected_iff [of fname] up c3 c4 sample_keys(1) run show ?thesis
    by (intro conjI impI) assumption+
qed

theorem process_papers_title_keys_witness:
  "endswith (lower (str ''X.PDF'')) (str ''.pdf'')
   \<and> replace (str ''X.PDF'') (str ''.pdf'') [] = str ''X.PDF''
   \<and> replace (str ''b.pdf.v2.pdf'') (str ''.pdf'') [] = str ''b.v2''
   \<and> process_papers papers_listdir papers_fs broken_ocr NoGpu fixed_llm (str ''papers'')
       (str ''gemma3:27b'')
     = Some (Inr [(str ''X.PDF'', str ''Resumo.''), (str ''b.v2'', str ''Resumo.'')])
   \<and> str ''X.PDF'' \<in> fst ` set [(str ''X.PDF'', str ''Resumo.''), (str ''b.v2'', str ''Resumo.'')]"
  using process_papers_title_keys [where fname = "str ''X.PDF''" and stem = "str ''X''"
      and a = "str ''b''" and b = "str ''.v2.pdf''"
      and listdir = papers_listdir and fs = papers_fs and ocr = broken_ocr and g = NoGpu
      and llm = fixed_llm and directory = "str ''papers''" and model = "str ''gemma3:27b''"
      and summaries = "[(str ''X.PDF'', str ''Resumo.''), (str ''b.v2'', str ''Resumo.'')]"]
    papers_run sample_selected(1) sample_keys
  by simp

section \<open>Properties of the summaries\<close>

lemma summarize_parts_append:
  "summarize_parts llm model (xs @ ys) acc
     = (case summarize_parts llm model xs acc of
          Inl e \<Rightarrow> Inl e
        | Inr acc' \<Rightarrow> summarize_parts llm model ys acc')"
  by (induction xs arbitrary: acc) (simp_all split: sum.splits)

text \<open>
  Claim C6, as amended. The claim says that \<open>summarize_chunk\<close> catches every error of the
  LLM service in both files. Only resume\_ocr\_gpu.py does: there a call that raises, or a
  response without \<^verbatim>\<open>message.content\<close>, gives the empty string, and once the text is
  chunked \<open>main\<close> goes on to the write whatever the service does. In resumes.py
  \<open>summarize_chunk\<close> has no handler: the exception leaves it, and it leaves the loop
  over the chunks of the article at the first chunk that fails.
\<close>

theorem llm_failure_caught_in_gpu_pipeline:
  "((llm (summarize_request_gpu chunk model) = Inl e
       \<or> llm (summarize_request_gpu chunk model) = Inr None)
      \<longrightarrow> summarize_chunk_gpu llm chunk model = [])
   \<and> (fst (extract_text_from_pdf_gpu fs reader pdf_path) \<noteq> []
        \<and> chunk_text_gpu (fst (extract_text_from_pdf_gpu fs reader pdf_path)) 4000 = Some chunks
      \<longrightarrow> (\<exists>final_summary.
             main_gpu fs reader llm writable pdf_path output_path model = Some (Saved final_summary)
             \<or> main_gpu fs reader llm writable pdf_path output_path model
                  = Some (SaveFailed final_summary)))
   \<and> (llm (summarize_request chunk model) = Inl e
      \<longrightarrow> summarize_chunk llm chunk model = Inl e
          \<and> (\<forall>before after acc. \<exists>e'.
                summarize_parts llm model (before @ chunk # after) acc = Inl e'))
   \<and> (llm (summarize_request chunk model) = Inr None
      \<longrightarrow> summarize_chunk llm chunk model = Inl KeyError)"
proof -
  have parts: "\<exists>e'. summarize_parts llm model (before @ chunk # after) acc = Inl e'"
    if "llm (summarize_request chunk model) = Inl e" for before after acc
    using that by (simp add: summarize_parts_append summarize_chunk_def split: sum.splits)
  show ?thesis
    using parts
    by (auto simp: summarize_chunk_gpu_def summarize_chunk_def main_gpu_def Let_def)
qed

theorem llm_failure_caught_in_gpu_pipeline_witness:
  "summarize_chunk_gpu down_llm (str ''Hello world.'') (str ''gemma3:12b'') = []
   \<and> main_gpu text_fs broken_reader down_llm always_writable (str ''text.pdf'')
        (str ''resumo_gpu.md'') (str ''gemma3:12b'') = Some (Saved [])
   \<and> summarize_chunk down_llm (str ''Hello world.'') (str ''gemma3:27b'') = Inl ConnectionFailure
   \<and> (\<exists>e'. summarize_parts down_llm (str ''gemma3:27b'') [str ''Hello world.''] [] = Inl e')"
proof -
  have chunks: "chunk_text_gpu (str ''Hello world.\<newline>\<newline>Last page'') 4000
      = Some [str ''Hello world.\<newline>\<newline>Last page'']"
    by (simp add: chunk_text_gpu_def chunk_loop.simps Let_def str_def
        strip_def slice_def isspace_def)
  have extracted: "fst (extract_text_from_pdf_gpu text_fs broken_reader (str ''text.pdf''))
      = str ''Hello world.\<newline>\<newline>Last page''"
    by (simp add: extract_text_from_pdf_gpu_def text_fs_def text_doc_def Let_def str_def
        strip_def isspace_def)
  have ne: "str ''Hello world.\<newline>\<newline>Last page'' \<noteq> []"
    by (simp add: str_def)
  have main: "main_gpu text_fs broken_reader down_llm always_writable (str ''text.pdf'')
        (str ''resumo_gpu.md'') (str ''gemma3:12b'') = Some (Saved [])"
    by (simp add: main_gpu_def extracted chunks ne Let_def summarize_chunk_gpu_def
        synthesize_summaries_gpu_def down_llm_def always_writable_def)
  show ?thesis
    using main
      llm_failure_caught_in_gpu_pipeline [where llm = down_llm and e = ConnectionFailure
        and chunk = "str ''Hello world.''" and model = "str ''gemma3:12b''"
        and fs = text_fs and reader = broken_reader and pdf_path = "str ''text.pdf''"
        and chunks = "[str ''Hello world.\<newline>\<newline>Last page'']"]
      llm_failure_caught_in_gpu_pipeline [where llm = down_llm and e = ConnectionFailure
        and chunk = "str ''Hello world.''" and model = "str ''gemma3:27b''"
        and fs = text_fs and reader = broken_reader and pdf_path = "str ''text.pdf''"
        and chunks = "[]"]
    by (auto simp: down_llm_def dest: spec [of _ "[]"])
qed

text \<open>
  The counterexample to claim C6 as it is stated: with an LLM service that refuses every
  connection, \<open>summarize_chunk\<close> of resumes.py ends with the exception, and so does
  \<open>process_papers\<close> on a directory with two articles.
\<close>

theorem llm_failure_leaves_resumes_summarize_chunk:
  "summarize_chunk down_llm (str ''Hello world.'') (str ''gemma3:27b'') = Inl ConnectionFailure
   \<and> summarize_parts down_llm (str ''gemma3:27b'') [str ''Hello world.'', str ''Last page''] []
       = Inl ConnectionFailure
   \<and> process_papers papers_listdir papers_fs broken_ocr NoGpu down_llm (str ''papers'')
         (str ''gemma3:27b'')
       = Some (Inl ConnectionFailure)"
  by (simp add: summarize_chunk_def down_llm_def papers_run_down)

lemma length_join:
  "xs \<noteq> [] \<Longrightarrow> length (join sep xs) = sum_list (map length xs) + length sep * (length xs - 1)"
  by (induction sep xs rule: join.induct) simp_all

text \<open>
  Claim C8, as amended. The claim says that both synthesis functions drop the empty
  summaries. Only \<open>synthesize_summaries\<close> of resume\_ocr\_gpu.py does: its joined text, and
  so its request and its result, is that of the summaries that are not empty, in their
  order, each after \<^verbatim>\<open>"- "\<close>; an empty summary anywhere in the list changes nothing.
  \<open>synthesize_summaries_single\<close> of resumes.py joins all summaries, and an empty one
  between two others leaves its separator in the joined text.
\<close>

theorem empty_summaries_filtered_in_gpu_pipeline:
  "joined_gpu summaries = joined_gpu (filter (\<lambda>s. s \<noteq> []) summaries)
   \<and> joined_gpu (before @ [] # after) = joined_gpu (before @ after)
   \<and> ((\<forall>s\<in>set summaries. s \<noteq> []) \<longrightarrow>
        joined_gpu summaries = join [10, 10] (map (\<lambda>s. str ''- '' @ s) summaries))
   \<and> synthesize_summaries_gpu llm summaries model
       = synthesize_summaries_gpu llm (filter (\<lambda>s. s \<noteq> []) summaries) model
   \<and> joined_single summaries = join [10, 10] summaries
   \<and> (before \<noteq> [] \<and> after \<noteq> [] \<longrightarrow>
        length (joined_single (before @ [] # after)) = length (joined_single (before @ after)) + 2)"
proof -
  have f: "filter (\<lambda>s. s \<noteq> []) summaries = summaries" if "\<forall>s\<in>set summaries. s \<noteq> []"
    using that by (simp add: filter_id_conv)
  have l: "length (joined_single (before @ [] # after)) = length (joined_single (before @ after)) + 2"
    if "before \<noteq> []" "after \<noteq> []"
    using that by (cases before) (simp_all add: joined_single_def length_join)
  show ?thesis
    using f l
    by (simp add: joined_gpu_def synthesize_summaries_gpu_def synthesis_request_gpu_def
        joined_single_def)
qed

theorem empty_summaries_filtered_in_gpu_pipeline_witness:
  "joined_gpu [str ''Part one.'', [], str ''Part two.'']
     = str ''- Part one.\<newline>\<newline>- Part two.''
   \<and> joined_gpu [str ''Part one.'', str ''Part two.'']
     = str ''- Part one.\<newline>\<newline>- Part two.''
   \<and> length (joined_single [str ''Part one.'', [], str ''Part two.''])
     = length (joined_single [str ''Part one.'', str ''Part two.'']) + 2"
  using empty_summaries_filtered_in_gpu_pipeline [where summaries = "[str ''Part one.'', str ''Part two.'']"
      and before = "[str ''Part one.'']" and after = "[str ''Part two.'']"]
  by (simp add: joined_gpu_def str_def)

text \<open>
  The counterexample to claim C8 as it is stated: in resumes.py an empty summary between
  two others stays in the joined text as two more line breaks, so the request differs
  from that of the two summaries alone; and an LLM service that answers with white space
  gives such empty summaries.
\<close>

theorem empty_summaries_kept_in_resumes_synthesis:
  "joined_single [str ''Part one.'', [], str ''Part two.'']
     = str ''Part one.\<newline>\<newline>\<newline>\<newline>Part two.''
   \<and> joined_single [str ''Part one.'', str ''Part two.'']
     = str ''Part one.\<newline>\<newline>Part two.''
   \<and> synthesis_request_single [str ''Part one.'', [], str ''Part two.''] (str ''gemma3:27b'')
     \<noteq> synthesis_request_single [str ''Part one.'', str ''Part two.''] (str ''gemma3:27b'')
   \<and> summarize_parts blank_llm (str ''gemma3:27b'') [str ''Hello world.'', str ''Last page''] []
     = Inr [[], []]
   \<and> joined_single [[], []] = str ''\<newline>\<newline>''"
  by (simp add: joined_single_def synthesis_request_single_def summarize_chunk_def blank_llm_def
      str_def strip_def isspace_def Let_def)

section \<open>Further properties of the pipelines\<close>

text \<open>
  A text within the budget is one chunk, its trimmed self, or no chunk when it is blank.
\<close>

theorem chunk_text_short_text:
  assumes "length T \<le> m"
  shows "chunk_text_gpu T m = Some (if strip T \<noteq> [] then [strip T] else [])
         \<and> chunk_text g T (Some m) = Some (if strip T \<noteq> [] then [strip T] else [])"
proof -
  have "chunk_loop T m 0 [] = Some (if strip T \<noteq> [] then [strip T] else [])"
  proof (cases "T = []")
    case True
    then show ?thesis by (subst chunk_loop.simps) simp
  next
    case False
    have sl: "slice T 0 m = T" using assms by (simp add: slice_def)
    have fin: "chunk_loop T m m chunks = Some chunks" for chunks
      using assms by (subst chunk_loop.simps) simp
    from False assms show ?thesis
      by (subst chunk_loop.simps) (simp add: Let_def sl fin)
  qed
  then show ?thesis by (simp add: chunk_text_gpu_def chunk_text_def)
qed

theorem chunk_text_short_text_witness:
  "chunk_text_gpu (str '' Hello world. '') 4000 = Some [str ''Hello world.'']
   \<and> chunk_text_gpu (str ''  '') 4000 = Some []"
proof -
  have "strip (str '' Hello world. '') = str ''Hello world.''" "strip (str ''  '') = []"
    "str ''Hello world.'' \<noteq> []"
    by (simp_all add: str_def strip_def isspace_def)
  with chunk_text_short_text [of "str '' Hello world. ''" 4000]
    chunk_text_short_text [of "str ''  ''" 4000]
  show ?thesis by (simp add: str_def)
qed

text \<open>
  When the extracted text is not empty and \<open>chunk_text\<close> returns, \<open>main\<close> writes the
  final synthesis; when every call of the LLM service raises, what it writes is the empty
  string.
\<close>

theorem main_gpu_writes_when_chunked:
  assumes "fst (extract_text_from_pdf_gpu fs reader pdf_path) \<noteq> []"
    and "chunk_text_gpu (fst (extract_text_from_pdf_gpu fs reader pdf_path)) 4000 = Some chunks"
  shows "main_gpu fs reader llm writable pdf_path output_path model
           = Some ((if writable output_path then Saved else SaveFailed)
               (synthesize_summaries_gpu llm
                  (map (\<lambda>chunk. summarize_chunk_gpu llm chunk model) chunks) model))
         \<and> ((\<forall>req. \<exists>e. llm req = Inl e) \<longrightarrow>
              main_gpu fs reader llm writable pdf_path output_path model
                = Some ((if writable output_path then Saved else SaveFailed) []))"
proof -
  have "synthesize_summaries_gpu llm summaries model = []" if "\<forall>req. \<exists>e. llm req = Inl e"
    for summaries
  proof -
    from that obtain e where "llm (synthesis_request_gpu summaries model) = Inl e" by blast
    then show ?thesis by (simp add: synthesize_summaries_gpu_def)
  qed
  with assms show ?thesis
    by (simp add: main_gpu_def Let_def)
qed

theorem main_gpu_writes_when_chunked_witness:
  "main_gpu text_fs broken_reader down_llm always_writable (str ''text.pdf'')
        (str ''resumo_gpu.md'') (str ''gemma3:12b'') = Some (Saved [])"
proof -
  have chunks: "chunk_text_gpu (str ''Hello world.\<newline>\<newline>Last page'') 4000
      = Some [str ''Hello world.\<newline>\<newline>Last page'']"
    by (simp add: chunk_text_gpu_def chunk_loop.simps Let_def str_def
        strip_def slice_def isspace_def)
  have extracted: "fst (extract_text_from_pdf_gpu text_fs broken_reader (str ''text.pdf''))
      = str ''Hello world.\<newline>\<newline>Last page''"
    by (simp add: extract_text_from_pdf_gpu_def text_fs_def text_doc_def Let_def str_def
        strip_def isspace_def)
  have ne: "str ''Hello world.\<newline>\<newline>Last page'' \<noteq> []"
    by (simp add: str_def)
  from main_gpu_writes_when_chunked [where fs = text_fs and reader = broken_reader
      and pdf_path = "str ''text.pdf''" and llm = down_llm and writable = always_writable
      and chunks = "[str ''Hello world.\<newline>\<newline>Last page'']"
      and output_path = "str ''resumo_gpu.md''" and model = "str ''gemma3:12b''"]
  show ?thesis
    by (simp add: extracted chunks ne down_llm_def always_writable_def
        synthesize_summaries_gpu_def)
qed

lemma rfind_no_break:
  assumes "\<forall>c\<in>set T. \<not> isspace c"
  shows "rfind T [10, 10] lo hi = None"
proof (cases "rfind T [10, 10] lo hi")
  case None
  then show ?thesis .
next
  case (Some i)
  then have "found_at T [10, 10] i" by (rule rfind_SomeD)
  then have "take 2 (drop i T) = [10, 10]" by (simp add: found_at_def numeral_2_eq_2)
  then have "10 \<in> set (take 2 (drop i T))" by simp
  then have "10 \<in> set T" by (auto dest!: in_set_takeD in_set_dropD)
  with assms have "\<not> isspace 10" by blast
  then show ?thesis by (simp add: isspace_def)
qed

lemma ceil_div_less:
  assumes "0 < (m::nat)"
  shows "k < (L + m - 1) div m \<longleftrightarrow> k * m < L"
proof -
  have "k < (L + m - 1) div m \<longleftrightarrow> Suc k \<le> (L + m - 1) div m" by auto
  also have "\<dots> \<longleftrightarrow> Suc k * m \<le> L + m - 1"
    using assms by (rule less_eq_div_iff_mult_less_eq)
  also have "\<dots> \<longleftrightarrow> k * m < L" using assms by auto
  finally show ?thesis .
qed

lemma chunk_loop_no_space:
  assumes ns: "\<forall>c\<in>set T. \<not> isspace c" and m: "0 < m"
  shows "chunk_loop T m (k * m) acc
     = Some (acc @ map (\<lambda>i. slice T (i * m) (i * m + m)) [k ..< (length T + m - 1) div m])"
proof (induction "(length T + m - 1) div m - k" arbitrary: k acc)
  case 0
  then have "\<not> k < (length T + m - 1) div m" by simp
  then have "\<not> k * m < length T" using ceil_div_less [OF m] by simp
  moreover from 0 have "[k ..< (length T + m - 1) div m] = []" by simp
  ultimately show ?case by (subst chunk_loop.simps) simp
next
  case (Suc d)
  then have k: "k < (length T + m - 1) div m" by simp
  then have lt: "k * m < length T" using ceil_div_less [OF m] by simp
  have "set (slice T (k * m) (k * m + m)) \<subseteq> set T"
    by (auto simp: slice_def dest!: in_set_takeD in_set_dropD)
  with ns have st: "strip (slice T (k * m) (k * m + m)) = slice T (k * m) (k * m + m)"
    by (intro strip_no_space) blast
  from lt m have ne: "slice T (k * m) (k * m + m) \<noteq> []" by (simp add: slice_def)
  from Suc(2) have "d = (length T + m - 1) div m - Suc k" by simp
  from Suc(1) [OF this, of "acc @ [slice T (k * m) (k * m + m)]"]
  have IH: "chunk_loop T m (k * m + m) (acc @ [slice T (k * m) (k * m + m)])
      = Some (acc @ slice T (k * m) (k * m + m)
          # map (\<lambda>i. slice T (i * m) (i * m + m)) [Suc k ..< (length T + m - 1) div m])"
    by (simp add: add.commute)
  have "chunk_loop T m (k * m) acc
      = chunk_loop T m (k * m + m) (acc @ [slice T (k * m) (k * m + m)])"
    using lt by (subst chunk_loop.simps) (simp add: Let_def rfind_no_break [OF ns] st ne)
  with IH k show ?case by (simp add: upt_conv_Cons)
qed

text \<open>
  A text without white space, and so without paragraph breaks, is cut into consecutive
  pieces of exactly \<open>max_chars\<close> code points, the last one shorter when the length is no
  multiple of the budget; here the loop always ends. A text of 9000 letters and the
  budget 4000 give chunks of 4000, 4000 and 1000 letters.
\<close>

theorem chunk_text_no_space:
  assumes "\<forall>c\<in>set T. \<not> isspace c" and "0 < m"
  shows "chunk_text_gpu T m
     = Some (map (\<lambda>i. slice T (i * m) (i * m + m)) [0 ..< (length T + m - 1) div m])"
  using chunk_loop_no_space [OF assms, of 0 "[]"] by (simp add: chunk_text_gpu_def)

theorem chunk_text_no_space_witness:
  "chunk_text_gpu (replicate 9000 98) 4000
     = Some [replicate 4000 98, replicate 4000 98, replicate 1000 98]"
proof -
  have "\<forall>c\<in>set (replicate 9000 (98::nat)). \<not> isspace c" by (simp add: isspace_def)
  moreover have "[0 ..< (3::nat)] = [0, 1, 2]" by (simp add: numeral_3_eq_3)
  ultimately show ?thesis
    using chunk_text_no_space [of "replicate 9000 98" 4000] by (simp add: slice_def)
qed

text \<open>
  A document of two pages, the first with the native text \<^verbatim>\<open>Hello world.\<close>, the second
  a scan in which the OCR engine reads \<^verbatim>\<open>Scanned content.\<close>: both files extract
  \<^verbatim>\<open>"Hello world.\n\nScanned content."\<close> and call the OCR engine for page 2 only.
\<close>

theorem extraction_scenario:
  "extract_text_from_pdf scanned_fs scanned_ocr (str ''scanned.pdf'')
     = Inr (str ''Hello world.\<newline>\<newline>Scanned content.'', [2])
   \<and> extract_text_from_pdf_gpu scanned_fs scanned_reader (str ''scanned.pdf'')
     = (str ''Hello world.\<newline>\<newline>Scanned content.'', [2])"
  by (simp add: extract_text_from_pdf_def extract_text_from_pdf_gpu_def scanned_fs_def
      scanned_doc_def scanned_ocr_def scanned_reader_def str_def strip_def isspace_def Let_def)

end
